(* ===== verification/Prelude.thy ===== *)
theory Prelude
  imports Complex_Main "HOL-Library.Word" "HOL-Library.Code_Target_Nat"
begin

text \<open>
  Shared vocabulary of the StegaScale development: the types of the model
  (bytes of a \<open>Uint8ClampedArray\<close>, UTF-16 code units of a JavaScript string,
  bit strings), the JavaScript runtime primitives that the code in
  \<open>src/src/utils/steganography.ts\<close> applies to strings of the digits \<open>0\<close> and
  \<open>1\<close> (\<open>Number.prototype.toString(2)\<close>, \<open>padStart\<close>, \<open>padEnd\<close>,
  \<open>parseInt(_, 2)\<close>, \<open>substring\<close>) and the lemmas about them that the
  component theories share.
\<close>

unbundle bit_operations_syntax

named_theorems bitstr_simps "rewrite rules for bit strings built by the JavaScript primitives"

section \<open>Types\<close>

text \<open>
  A byte of the canvas buffer is an \<open>8 word\<close>; a character of a JavaScript
  string is a UTF-16 code unit, a \<open>16 word\<close> (\<open>charCodeAt\<close> returns it,
  \<open>String.fromCharCode\<close> reduces its argument modulo \<open>2^16\<close>). The code only
  builds strings over the two digits \<open>0\<close> and \<open>1\<close>; such a string is a
  \<open>bool list\<close>, \<open>True\<close> for the digit \<open>1\<close>, most significant digit first.
\<close>

type_synonym byte = "8 word"
type_synonym code_unit = "16 word"
type_synonym jstring = "code_unit list"
type_synonym bitstr = "bool list"

text \<open>
  The pixel surfaces. An \<open>image\<close> holds the width, the height and the RGBA
  bytes in row-major order, as \<open>ImageData\<close> and a decoded
  \<open>HTMLImageElement\<close> do; a \<open>canvas\<close> is an image whose 2D context may or may
  not be obtainable (\<open>getContext('2d')\<close> returns \<open>null\<close> otherwise).
  \<open>getImageData(0, 0, width, height).data\<close> of a canvas is its \<open>img_data\<close>.
\<close>

record image =
  img_width :: nat
  img_height :: nat
  img_data :: "byte list"

record canvas = image +
  has_context :: bool

text \<open>A well-formed surface has four bytes per pixel.\<close>

definition wf_image :: "'a image_scheme \<Rightarrow> bool" where
  "wf_image i \<longleftrightarrow> length (img_data i) = 4 * img_width i * img_height i"

text \<open>\<open>canvas.toDataURL('image/png')\<close>: PNG is lossless, so the data URL carries
  the canvas's pixels exactly; the model keeps them as an image.\<close>

definition toDataURL :: "canvas \<Rightarrow> image" where
  "toDataURL cv = \<lparr>img_width = img_width cv, img_height = img_height cv, img_data = img_data cv\<rparr>"

text \<open>The errors the code throws, one constructor per message.\<close>

datatype stego_error =
    NoContext          \<comment> \<open>'Could not get canvas context'\<close>
  | TooSmall           \<comment> \<open>'Image is too small to contain a message.'\<close>
  | NoValidMessage     \<comment> \<open>'No valid message found. ...'\<close>
  | EndedPrematurely   \<comment> \<open>'Image data ended prematurely. ...'\<close>
  | MessageTooLong nat \<comment> \<open>'Message too long for current capacity (n bytes).'\<close>

text \<open>Example surfaces for the witnesses: the 4 by 4 canvas of the
  specification's scenarios with all bytes 0 or all bytes 255, and a 2 by 1 canvas
  (6 colour bytes).\<close>

definition blank_4x4 :: canvas where
  "blank_4x4 = \<lparr>img_width = 4, img_height = 4, img_data = replicate 64 0, has_context = True\<rparr>"

definition white_4x4 :: canvas where
  "white_4x4 = \<lparr>img_width = 4, img_height = 4, img_data = replicate 64 255, has_context = True\<rparr>"

definition tiny_2x1 :: canvas where
  "tiny_2x1 = \<lparr>img_width = 2, img_height = 1, img_data = replicate 8 0, has_context = True\<rparr>"

section \<open>JavaScript primitives on binary strings\<close>

text \<open>\<open>n.toString(2)\<close> for a non-negative integer \<open>n\<close>: \<open>"0"\<close> for zero, else
  the binary digits without leading zeros.\<close>

fun to_bin :: "nat \<Rightarrow> bitstr" where
  "to_bin n = (if n < 2 then [n = 1] else to_bin (n div 2) @ [n mod 2 = 1])"

declare to_bin.simps [simp del]

text \<open>\<open>s.padStart(w, c)\<close> and \<open>s.padEnd(w, c)\<close>: no-ops when \<open>s\<close> is already
  at least \<open>w\<close> long.\<close>

definition pad_start :: "nat \<Rightarrow> 'a \<Rightarrow> 'a list \<Rightarrow> 'a list" where
  "pad_start w c xs = replicate (w - length xs) c @ xs"

definition pad_end :: "nat \<Rightarrow> 'a \<Rightarrow> 'a list \<Rightarrow> 'a list" where
  "pad_end w c xs = xs @ replicate (w - length xs) c"

text \<open>\<open>s.substring(a, b)\<close> for \<open>a \<le> b\<close>: both ends clamped to the length.\<close>

definition substring :: "'a list \<Rightarrow> nat \<Rightarrow> nat \<Rightarrow> 'a list" where
  "substring xs a b = take (b - a) (drop a xs)"

text \<open>The value of a string of binary digits, most significant first.\<close>

definition bin_val :: "bitstr \<Rightarrow> nat" where
  "bin_val xs = foldl (\<lambda>acc b. 2 * acc + of_bool b) 0 xs"

text \<open>\<open>parseInt(s, 2)\<close> on a string of binary digits: \<open>NaN\<close> (here \<open>None\<close>) for the
  empty string, the value otherwise. The strings the code parses are at most
  32 digits long, so the value is exact in a double.\<close>

definition parse_bin :: "bitstr \<Rightarrow> nat option" where
  "parse_bin xs = (if xs = [] then None else Some (bin_val xs))"

text \<open>\<open>String.fromCharCode(x)\<close> for \<open>x\<close> the result of \<open>parseInt\<close>: the code
  unit \<open>ToUint16(x)\<close>, which is 0 for \<open>NaN\<close>.\<close>

definition from_char_code :: "nat option \<Rightarrow> code_unit" where
  "from_char_code x = (case x of None \<Rightarrow> 0 | Some n \<Rightarrow> word_of_nat n)"

text \<open>The store of a number into a \<open>Uint8ClampedArray\<close>: clamped to [0, 255]
  (the numbers stored here are integers, so the rounding step never applies).\<close>

definition clamp_u8 :: "int \<Rightarrow> byte" where
  "clamp_u8 x = word_of_int (max 0 (min 255 x))"

text \<open>\<open>ToInt32\<close> of the result of \<open>parseInt\<close>, as the bitwise operators apply
  it: \<open>NaN\<close> becomes 0, a non-negative integer is reduced modulo \<open>2^32\<close>.\<close>

definition to_int32 :: "nat option \<Rightarrow> 32 word" where
  "to_int32 x = (case x of None \<Rightarrow> 0 | Some n \<Rightarrow> word_of_nat n)"

text \<open>\<open>ToUint32\<close>, as the \<open>unsigned long\<close> attributes \<open>canvas.width\<close> and
  \<open>canvas.height\<close> convert a number: truncated towards zero, then reduced modulo
  \<open>2^32\<close>. The numbers assigned here are rationals (products of integers and
  slider steps of 0.5).\<close>

definition to_uint32 :: "rat \<Rightarrow> nat" where
  "to_uint32 x = nat ((if 0 \<le> x then \<lfloor>x\<rfloor> else \<lceil>x\<rceil>) mod 2 ^ 32)"

text \<open>Reference: the \<open>w\<close>-digit binary form of \<open>n mod 2^w\<close>, most significant
  digit first. It is no function of the code; the lemmas use it to say what
  the padded strings are.\<close>

fun bits_of :: "nat \<Rightarrow> nat \<Rightarrow> bitstr" where
  "bits_of 0 n = []"
| "bits_of (Suc w) n = bits_of w (n div 2) @ [odd n]"

text \<open>Reference: the number of colour (non-alpha) bytes among the indices \<open>i, \<dots>, i + n - 1\<close>.\<close>

definition slots :: "nat \<Rightarrow> nat \<Rightarrow> nat" where
  "slots i n = length (filter (\<lambda>p. (p + 1) mod 4 \<noteq> 0) [i..<i + n])"

section \<open>Lemmas\<close>

lemma bit_nat_less_pow: "(v::nat) < 2 ^ k \<Longrightarrow> bit v n \<Longrightarrow> n < k"
  by (metis bit_take_bit_iff take_bit_nat_eq_self_iff)

lemma bit_255_32: "bit (255 :: 32 word) m = (m < 8)"
proof -
  have eq: "(255 :: 32 word) = mask 8" by (simp add: mask_eq_exp_minus_1)
  have "bit (mask 8 :: 32 word) m = (m < 8)" by (simp only: Word.bit_mask_iff) simp
  then show ?thesis by (simp only: eq)
qed

lemma bit_255_int: "bit (255 :: int) m = (m < 8)"
proof -
  have eq: "(255 :: int) = mask 8" by (simp add: mask_eq_exp_minus_1)
  have "bit (mask 8 :: int) m = (m < 8)" by (simp only: bit_mask_iff) simp
  then show ?thesis by (simp only: eq)
qed

lemma uint_ucast_byte_32: "uint (ucast (b :: byte) :: 32 word) = uint b"
  by (rule uint_up_ucast) (simp add: is_up)

lemma unat_ucast_byte_32: "unat (ucast (b :: byte) :: 32 word) = unat b"
  using uint_ucast_byte_32 [of b] by (simp only: unat_eq_nat_uint)

lemma length_pad_start [simp]: "length (pad_start w c xs) = max w (length xs)"
  by (simp add: pad_start_def)

lemma length_pad_end [simp]: "length (pad_end w c xs) = max w (length xs)"
  by (simp add: pad_end_def)

lemma pad_start_Suc_snoc [bitstr_simps]:
  "pad_start (Suc w) c (xs @ [x]) = pad_start w c xs @ [x]"
  by (simp add: pad_start_def)

lemma pad_end_take_drop [bitstr_simps]:
  "length xs \<le> w \<Longrightarrow> take (length xs) (pad_end w c xs) = xs"
  by (simp add: pad_end_def)

lemma bin_val_snoc [simp]: "bin_val (xs @ [b]) = 2 * bin_val xs + of_bool b"
  by (simp add: bin_val_def)

lemma bin_val_Nil [simp]: "bin_val [] = 0"
  by (simp add: bin_val_def)

lemma bin_val_less: "bin_val xs < 2 ^ length xs"
proof (induction xs rule: rev_induct)
  case Nil
  then show ?case by simp
next
  case (snoc x xs)
  then show ?case by (cases x) simp_all
qed

lemma bin_val_replicate_False_append [simp]: "bin_val (replicate n False @ xs) = bin_val xs"
proof (induction xs rule: rev_induct)
  case Nil
  show ?case by (induction n) (simp_all add: bin_val_def)
next
  case (snoc x xs)
  then show ?case by (simp flip: append_assoc)
qed

lemma to_bin_nonempty [simp]: "to_bin n \<noteq> []"
  by (subst to_bin.simps) simp

lemma length_to_bin_le: "0 < w \<Longrightarrow> n < 2 ^ w \<Longrightarrow> length (to_bin n) \<le> w"
proof (induction n arbitrary: w rule: to_bin.induct)
  case (1 n)
  show ?case
  proof (cases "n < 2")
    case True
    with "1.prems" show ?thesis by (subst to_bin.simps) simp
  next
    case False
    obtain v where w: "w = Suc v" using "1.prems" by (cases w) auto
    have v: "0 < v"
    proof (rule ccontr)
      assume "\<not> 0 < v"
      with w "1.prems" have "n < 2" by simp
      with False show False by simp
    qed
    have "n div 2 < 2 ^ v"
      using "1.prems" w less_mult_imp_div_less [of n "2 ^ v" 2] by (simp add: mult.commute)
    with "1.IH" False v have "length (to_bin (n div 2)) \<le> v" by simp
    with False w show ?thesis by (subst to_bin.simps) simp
  qed
qed

lemma length_to_bin_gt: "2 ^ w \<le> n \<Longrightarrow> w < length (to_bin n)"
proof (induction n arbitrary: w rule: to_bin.induct)
  case (1 n)
  show ?case
  proof (cases w)
    case 0
    then show ?thesis by (simp add: length_greater_0_conv)
  next
    case (Suc v)
    have "(2::nat) \<le> 2 ^ w" using Suc by simp
    with "1.prems" have n2: "\<not> n < 2" by linarith
    have "2 ^ v \<le> n div 2" using "1.prems" Suc by (simp add: less_eq_div_iff_mult_less_eq ac_simps)
    with "1.IH" n2 have "v < length (to_bin (n div 2))" by simp
    with n2 Suc show ?thesis by (subst to_bin.simps) simp
  qed
qed

lemma bin_val_to_bin [simp]: "bin_val (to_bin n) = n"
proof (induction n rule: to_bin.induct)
  case (1 n)
  show ?case
  proof (cases "n < 2")
    case True
    then have "n = 0 \<or> n = 1" by auto
    then show ?thesis by (subst to_bin.simps) (auto simp: bin_val_def)
  next
    case False
    with "1.IH" have "bin_val (to_bin (n div 2)) = n div 2" by simp
    with False show ?thesis by (subst to_bin.simps) (simp add: of_bool_def; presburger)
  qed
qed

lemma parse_bin_pad_start_to_bin [bitstr_simps]:
  "parse_bin (pad_start w False (to_bin n)) = Some n"
  by (simp add: parse_bin_def pad_start_def)

lemma length_bits_of [simp]: "length (bits_of w n) = w"
  by (induction w arbitrary: n) auto

lemma bits_of_eq_Nil_iff [simp]: "bits_of w n = [] \<longleftrightarrow> w = 0"
  by (cases w) simp_all

lemma bits_of_zero: "bits_of w 0 = replicate w False"
  by (induction w) (simp_all add: replicate_append_same)

lemma bin_val_bits_of [simp]: "bin_val (bits_of w n) = n mod 2 ^ w"
proof (induction w arbitrary: n)
  case 0
  then show ?case by simp
next
  case (Suc w)
  then show ?case by (simp add: mod_mult2_eq mult.commute odd_iff_mod_2_eq_one)
qed

lemma bits_of_bin_val: "length xs = w \<Longrightarrow> bits_of w (bin_val xs) = xs"
proof (induction xs arbitrary: w rule: rev_induct)
  case Nil
  then show ?case by simp
next
  case (snoc x xs)
  then show ?case by (cases w) auto
qed

lemma pad_start_to_bin: "0 < w \<Longrightarrow> n < 2 ^ w \<Longrightarrow> pad_start w False (to_bin n) = bits_of w n"
proof (induction w arbitrary: n)
  case 0
  then show ?case by simp
next
  case (Suc w)
  show ?case
  proof (cases "n < 2")
    case True
    then have "to_bin n = [odd n]" by (subst to_bin.simps) (auto, presburger)
    moreover from True have "n div 2 = 0" by simp
    ultimately show ?thesis
      by (simp add: pad_start_def bits_of_zero)
  next
    case False
    then have w: "0 < w" using Suc.prems by (cases w) auto
    have "n div 2 < 2 ^ w" using Suc.prems by simp
    then have "pad_start w False (to_bin (n div 2)) = bits_of w (n div 2)"
      using Suc.IH w by blast
    moreover from False have "to_bin n = to_bin (n div 2) @ [odd n]"
      by (subst to_bin.simps) (auto simp: odd_iff_mod_2_eq_one)
    ultimately show ?thesis by (simp add: pad_start_Suc_snoc)
  qed
qed

section \<open>Counting colour bytes\<close>

lemma slots_0 [simp]: "slots i 0 = 0"
  by (simp add: slots_def)

lemma slots_Suc:
  "slots i (Suc n) = (if (i + 1) mod 4 = 0 then 0 else 1) + slots (i + 1) n"
proof -
  have "[i..<i + Suc n] = i # [i + 1..<i + 1 + n]"
    by (simp add: upt_conv_Cons)
  then show ?thesis by (simp add: slots_def)
qed

lemma slots_from_0: "slots 0 n = n - n div 4"
proof (induction n)
  case 0
  then show ?case by simp
next
  case (Suc n)
  have "[0..<Suc n] = [0..<n] @ [n]" by simp
  then have "slots 0 (Suc n) = slots 0 n + (if (n + 1) mod 4 = 0 then 0 else 1)"
    by (simp add: slots_def)
  moreover have "Suc n div 4 = n div 4 + (if Suc n mod 4 = 0 then 1 else 0)"
    by (simp add: div_Suc)
  moreover have "n div 4 \<le> n" by simp
  ultimately show ?case using Suc by auto
qed

end
