(* ===== verification/Frame.thy ===== *)
theory Frame
  imports Prelude
begin

text \<open>
  The frame the codec hides (\<open>src/src/utils/steganography.ts\<close>): the message
  text as a string of binary digits (\<open>stringToBin\<close>, eight digits per UTF-16
  code unit, more for a unit above 255), the 32-digit length header, and the
  way back (\<open>binToString\<close>, which cuts the digits into groups of eight). The
  lemmas show that text of code units below 256 survives the round trip and that
  the header carries the message length.
\<close>

section \<open>Definitions\<close>

text \<open>\<open>stringToBin\<close> (lines 120--122): \<open>str.split('')\<close> yields the UTF-16 code
  units, each written as \<open>charCodeAt(0).toString(2).padStart(8, '0')\<close>.\<close>

definition stringToBin :: "jstring \<Rightarrow> bitstr" where
  "stringToBin str = concat (map (\<lambda>c. pad_start 8 False (to_bin (unat c))) str)"

text \<open>\<open>bin.match(/.{1,8}/g) || []\<close> (line 125): consecutive groups of eight
  digits, the last one shorter; no group for the empty string.\<close>

fun split8 :: "'a list \<Rightarrow> 'a list list" where
  "split8 [] = []"
| "split8 (x # xs) = take 8 (x # xs) # split8 (drop 7 xs)"

text \<open>\<open>binToString\<close> (lines 124--127).\<close>

definition binToString :: "bitstr \<Rightarrow> jstring" where
  "binToString bin = map (\<lambda>byte. from_char_code (parse_bin byte)) (split8 bin)"

text \<open>The frame of \<open>encodeLSB\<close> (lines 30--32): the 32-digit length header, the
  message length in UTF-16 code units, then the message digits.\<close>

definition lengthHeader :: "jstring \<Rightarrow> bitstr" where
  "lengthHeader message = pad_start 32 False (to_bin (length message))"

definition fullBinary :: "jstring \<Rightarrow> bitstr" where
  "fullBinary message = lengthHeader message @ stringToBin message"

text \<open>Text whose code units all fit in a byte (Latin-1).\<close>

definition latin1 :: "jstring \<Rightarrow> bool" where
  "latin1 s \<longleftrightarrow> list_all (\<lambda>c. unat c < 256) s"

section \<open>Lemmas\<close>

lemma stringToBin_Nil [simp]: "stringToBin [] = []"
  by (simp add: stringToBin_def)

lemma stringToBin_Cons: "stringToBin (c # s) = pad_start 8 False (to_bin (unat c)) @ stringToBin s"
  by (simp add: stringToBin_def)

lemma stringToBin_latin1:
  "latin1 s \<Longrightarrow> stringToBin s = concat (map (\<lambda>c. bits_of 8 (unat c)) s)"
  by (induction s) (simp_all add: latin1_def stringToBin_Cons pad_start_to_bin)

lemma length_stringToBin_latin1 [simp]: "latin1 s \<Longrightarrow> length (stringToBin s) = 8 * length s"
  by (induction s) (simp_all add: latin1_def stringToBin_Cons pad_start_to_bin)

lemma split8_append: "length xs = 8 \<Longrightarrow> split8 (xs @ ys) = xs # split8 ys"
  by (cases xs) simp_all

lemma split8_concat: "list_all (\<lambda>x. length x = 8) xss \<Longrightarrow> split8 (concat xss) = xss"
  by (induction xss) (simp_all add: split8_append)

lemma binToString_stringToBin: "latin1 s \<Longrightarrow> binToString (stringToBin s) = s"
proof -
  assume l: "latin1 s"
  have "split8 (concat (map (\<lambda>c. bits_of 8 (unat c)) s)) = map (\<lambda>c. bits_of 8 (unat c)) s"
    by (rule split8_concat) (simp add: list_all_iff)
  moreover have "from_char_code (parse_bin (bits_of 8 (unat c))) = c" if "unat c < 256" for c :: code_unit
  proof -
    have "parse_bin (bits_of 8 (unat c)) = Some (unat c)"
      using that by (simp add: parse_bin_def)
    then show ?thesis by (simp add: from_char_code_def)
  qed
  ultimately show ?thesis
    using l by (simp add: binToString_def stringToBin_latin1 latin1_def list_all_iff map_idI)
qed

lemma lengthHeader_bits: "length s < 2 ^ 32 \<Longrightarrow> lengthHeader s = bits_of 32 (length s)"
  by (simp add: lengthHeader_def pad_start_to_bin)

lemma length_lengthHeader [simp]: "length s < 2 ^ 32 \<Longrightarrow> length (lengthHeader s) = 32"
  by (simp add: lengthHeader_bits)

lemma parse_bin_lengthHeader: "parse_bin (lengthHeader s) = Some (length s)"
  by (simp add: lengthHeader_def parse_bin_pad_start_to_bin)

lemma length_fullBinary:
  "latin1 s \<Longrightarrow> length s < 2 ^ 32 \<Longrightarrow> length (fullBinary s) = 32 + 8 * length s"
  by (simp add: fullBinary_def)

lemma length_split8: "length (split8 xs) = (length xs + 7) div 8"
  by (induction xs rule: split8.induct) auto

lemma length_binToString: "length (binToString bin) = (length bin + 7) div 8"
  by (simp add: binToString_def length_split8)

lemma length_stringToBin_ge: "8 * length s \<le> length (stringToBin s)"
  by (induction s) (simp_all add: stringToBin_Cons)

lemma length_stringToBin_wide: "\<not> latin1 s \<Longrightarrow> 8 * length s < length (stringToBin s)"
proof (induction s)
  case Nil
  then show ?case by (simp add: latin1_def)
next
  case (Cons c s)
  show ?case
  proof (cases "unat c < 256")
    case True
    with Cons have "8 * length s < length (stringToBin s)" by (simp add: latin1_def)
    then show ?thesis by (simp add: stringToBin_Cons)
  next
    case False
    then have "8 < length (to_bin (unat c))" by (intro length_to_bin_gt) simp
    with length_stringToBin_ge [of s] show ?thesis by (simp add: stringToBin_Cons)
  qed
qed

text \<open>C13: a message survives \<open>stringToBin\<close> followed by \<open>binToString\<close> exactly
  when all its UTF-16 code units are below 256. A wider unit is written with all
  of its 9 to 16 binary digits, which shifts every later group of eight.\<close>

theorem text_roundtrip_iff: "binToString (stringToBin s) = s \<longleftrightarrow> latin1 s"
proof
  assume eq: "binToString (stringToBin s) = s"
  show "latin1 s"
  proof (rule ccontr)
    assume "\<not> latin1 s"
    then have "8 * length s < length (stringToBin s)" by (rule length_stringToBin_wide)
    then have "length s < length (binToString (stringToBin s))"
      by (simp add: length_binToString)
    with eq show False by simp
  qed
next
  assume "latin1 s"
  then show "binToString (stringToBin s) = s" by (rule binToString_stringToBin)
qed

theorem text_roundtrip_iff_witness:
  "binToString (stringToBin [65]) = [65] \<and> binToString (stringToBin [256]) \<noteq> [256]"
  using text_roundtrip_iff [of "[65]"] text_roundtrip_iff [of "[256]"] by (simp add: latin1_def)

lemma split8_length_le: "x \<in> set (split8 xs) \<Longrightarrow> length x \<le> 8"
  by (induction xs rule: split8.induct) auto

lemma from_char_code_parse_bin_less:
  assumes "length b \<le> 8"
  shows "unat (from_char_code (parse_bin b)) < 256"
proof (cases "b = []")
  case True
  then show ?thesis by (simp add: parse_bin_def from_char_code_def)
next
  case False
  have "bin_val b < 2 ^ length b" by (rule bin_val_less)
  also have "(2::nat) ^ length b \<le> 2 ^ 8" using assms by (rule power_increasing) simp
  finally have "bin_val b < 256" by simp
  then show ?thesis
    using False by (simp add: parse_bin_def from_char_code_def unsigned_of_nat take_bit_nat_eq_self)
qed

text \<open>Every string \<open>binToString\<close> builds is Latin-1: each group has at most 8
  digits.\<close>

lemma latin1_binToString: "latin1 (binToString bits)"
  by (auto simp add: latin1_def binToString_def list_all_iff
      intro: from_char_code_parse_bin_less split8_length_le)

end
