(* ===== verification/Encoder.thy ===== *)
theory Encoder
  imports Frame
begin

text \<open>
  \<open>encodeLSB\<close> (\<open>src/src/utils/steganography.ts\<close>, lines 17--55): the frame is
  written \<open>bitsPerChannel\<close> digits at a time into the low bits of every byte
  that is not an alpha byte, in index order, by an in-place loop over the
  buffer. The loop is \<open>encode_loop\<close>; \<open>enc_ref\<close> is a structural reference
  for it, and \<open>enc_ref_nth\<close> says byte by byte what the encoder leaves in the
  buffer.
\<close>

section \<open>Definitions\<close>

text \<open>\<open>const mask = 255 << bitsPerChannel\<close> (line 35), a JavaScript int32: the
  shift count is taken modulo 32.\<close>

definition enc_mask :: "nat \<Rightarrow> 32 word" where
  "enc_mask bitsPerChannel = push_bit (bitsPerChannel mod 32) 255"

text \<open>\<open>data[i] = (data[i] & mask) | valueToHide\<close> (line 44): int32 operations,
  the result stored into the clamped byte array.\<close>

definition hide_byte :: "nat \<Rightarrow> byte \<Rightarrow> nat option \<Rightarrow> byte" where
  "hide_byte bitsPerChannel b valueToHide =
     clamp_u8 (sint ((ucast b AND enc_mask bitsPerChannel) OR to_int32 valueToHide))"

text \<open>The loop of lines 34--46, with the index \<open>i\<close> and \<open>bitIndex\<close> as
  arguments and the buffer updated in place.\<close>

function encode_loop :: "nat \<Rightarrow> bitstr \<Rightarrow> byte list \<Rightarrow> nat \<Rightarrow> nat \<Rightarrow> byte list" where
  "encode_loop bitsPerChannel fullBin data i bitIndex =
     (if i < length data \<and> bitIndex < length fullBin then
        (if (i + 1) mod 4 = 0 then encode_loop bitsPerChannel fullBin data (i + 1) bitIndex
         else
           (let bitsToHide = substring fullBin bitIndex (bitIndex + bitsPerChannel);
                valueToHide = parse_bin (pad_end bitsPerChannel False bitsToHide)
            in encode_loop bitsPerChannel fullBin
                 (data[i := hide_byte bitsPerChannel (data ! i) valueToHide])
                 (i + 1) (bitIndex + bitsPerChannel)))
      else data)"
  by pat_completeness auto
termination
  by (relation "measure (\<lambda>(k, f, data, i, b). length data - i)") auto

declare encode_loop.simps [simp del]

text \<open>What \<open>encodeLSB\<close> returns besides the image.\<close>

record stegano_result =
  dataUrl :: image
  capacity :: nat
  messageLength :: nat

text \<open>\<open>encodeLSB\<close>: the context check (line 23), the frame (lines 30--32), the
  loop, \<open>putImageData\<close> (line 48) and the result (lines 50--54). The capacity
  \<open>Math.floor((data.length * 3 / 4) * bitsPerChannel / 8)\<close> is the floor of
  the rational \<open>3 * length * bitsPerChannel / 32\<close>.\<close>

definition encodeLSB :: "canvas \<Rightarrow> jstring \<Rightarrow> nat \<Rightarrow> stego_error + canvas \<times> stegano_result" where
  "encodeLSB cv message bitsPerChannel =
     (if \<not> has_context cv then Inl NoContext
      else
        (let data = img_data cv;
             data' = encode_loop bitsPerChannel (fullBinary message) data 0 0;
             cv' = cv\<lparr>img_data := data'\<rparr>
         in Inr (cv', \<lparr>dataUrl = toDataURL cv',
                      capacity = 3 * length data * bitsPerChannel div 32,
                      messageLength = length message\<rparr>)))"

text \<open>Abstract specification of the encoder, byte by byte: colour byte \<open>j\<close>
  is the \<open>(j - j div 4)\<close>-th one, so its digits start at \<open>k * (j - j div 4)\<close>;
  it is written when that position is inside the frame.\<close>

definition encode_spec :: "nat \<Rightarrow> bitstr \<Rightarrow> byte list \<Rightarrow> byte list" where
  "encode_spec k full data =
     map (\<lambda>j. let p = k * (j - j div 4) in
               if (j + 1) mod 4 = 0 \<or> length full \<le> p then data ! j
               else hide_byte k (data ! j) (parse_bin (pad_end k False (substring full p (p + k)))))
       [0..<length data]"

text \<open>Reference for the loop: structural recursion over the rest of the buffer,
  \<open>i\<close> the index of its first byte and \<open>bits\<close> the digits not yet written.\<close>

fun enc_ref :: "nat \<Rightarrow> nat \<Rightarrow> bitstr \<Rightarrow> byte list \<Rightarrow> byte list" where
  "enc_ref k i bits [] = []"
| "enc_ref k i bits (b # bs) =
     (if bits = [] then b # bs
      else if (i + 1) mod 4 = 0 then b # enc_ref k (i + 1) bits bs
      else hide_byte k b (parse_bin (pad_end k False (take k bits))) # enc_ref k (i + 1) (drop k bits) bs)"

section \<open>The loop and its reference\<close>

lemma enc_ref_no_bits [simp]: "enc_ref k i [] data = data"
  by (cases data) simp_all

lemma length_enc_ref [simp]: "length (enc_ref k i bits data) = length data"
  by (induction k i bits data rule: enc_ref.induct) simp_all

lemma encode_loop_enc_ref:
  "i \<le> length data \<Longrightarrow>
   encode_loop k full data i bi = take i data @ enc_ref k i (drop bi full) (drop i data)"
proof (induction k full data i bi rule: encode_loop.induct)
  case (1 k full data i bi)
  show ?case
  proof (cases "i < length data \<and> bi < length full")
    case False
    with "1.prems" show ?thesis
      by (auto simp: encode_loop.simps [of k full data i bi])
  next
    case run: True
    then have dr: "drop i data = data ! i # drop (Suc i) data"
      by (simp add: Cons_nth_drop_Suc)
    have tk: "take (Suc i) data = take i data @ [data ! i]"
      using run by (simp add: take_Suc_conv_app_nth)
    have bits: "drop bi full \<noteq> []" using run by simp
    show ?thesis
    proof (cases "(i + 1) mod 4 = 0")
      case True
      with run "1.IH"(1) show ?thesis
        by (simp add: encode_loop.simps [of k full data i bi] dr tk bits)
    next
      case False
      let ?h = "hide_byte k (data ! i) (parse_bin (pad_end k False (substring full bi (bi + k))))"
      have "encode_loop k full data i bi = encode_loop k full (data[i := ?h]) (i + 1) (bi + k)"
        using run False by (simp add: encode_loop.simps [of k full data i bi] Let_def)
      also have "\<dots> = take (i + 1) (data[i := ?h]) @ enc_ref k (i + 1) (drop (bi + k) full) (drop (i + 1) (data[i := ?h]))"
        using run False "1.IH"(2) by (simp add: Let_def)
      also have "\<dots> = take i data @ ?h # enc_ref k (i + 1) (drop (bi + k) full) (drop (Suc i) data)"
        using run by (simp add: take_Suc_conv_app_nth take_update_swap list_update_append)
      finally show ?thesis
        using False bits by (simp add: dr substring_def add.commute)
    qed
  qed
qed

section \<open>One byte: what the int32 expression of line 44 stores\<close>

lemma to_int32_parse_bin: "to_int32 (parse_bin xs) = word_of_nat (bin_val xs)"
  by (simp add: to_int32_def parse_bin_def)

lemma hide_byte_int32:
  fixes b :: byte
  assumes k: "k \<le> 8" and v: "v < 2 ^ k"
  shows "((ucast b AND enc_mask k) OR word_of_nat v :: 32 word)
         = ucast ((b AND NOT (mask k)) OR word_of_nat v)"
proof (rule bit_word_eqI)
  fix n assume n: "n < LENGTH(32)"
  have "bit (word_of_nat v :: 32 word) n = bit v n"
    using n by (simp add: bit_simps)
  moreover have "bit (word_of_nat v :: byte) n = (n < 8 \<and> bit v n)"
    by (simp add: bit_simps)
  moreover have "bit v n \<Longrightarrow> n < k" using v by (rule bit_nat_less_pow)
  moreover have "bit b n \<Longrightarrow> n < 8" using bit_imp_le_length [of b n] by simp
  ultimately show "bit ((ucast b AND enc_mask k) OR word_of_nat v :: 32 word) n
         = bit (ucast ((b AND NOT (mask k)) OR word_of_nat v) :: 32 word) n"
    using k n by (auto simp add: enc_mask_def bit_simps bit_255_32 bit_255_int)
qed

lemma sint_ucast_byte_32: "sint (ucast (y :: byte) :: 32 word) = uint y"
proof -
  have "uint y < 2 ^ 31" using uint_bounded [of y] by simp
  moreover have "(- (2 ^ 31) :: int) \<le> 0" by simp
  then have "- (2 ^ 31) \<le> uint y" using uint_nonnegative by (rule order_trans)
  ultimately have "signed_take_bit 31 (uint y) = uint y"
    by (intro signed_take_bit_int_eq_self) simp_all
  then show ?thesis by (simp add: signed_ucast_eq)
qed

lemma hide_byte_Some:
  fixes b :: byte
  assumes "k \<le> 8" and "v < 2 ^ k"
  shows "hide_byte k b (Some v) = (b AND NOT (mask k)) OR word_of_nat v"
proof -
  let ?y = "(b AND NOT (mask k)) OR word_of_nat v"
  have "0 \<le> uint ?y" "uint ?y \<le> 255"
    using uint_bounded [of ?y] by simp_all
  then show ?thesis
    using assms by (simp add: hide_byte_def to_int32_def hide_byte_int32 sint_ucast_byte_32 clamp_u8_def)
qed

text \<open>A group of \<open>k \<le> 8\<close> digits (the padded chunk of line 42) is stored as
  the low \<open>k\<close> bits; the other bits of the byte are kept.\<close>

lemma hide_byte_parse:
  fixes b :: byte
  assumes "k \<le> 8" and "length xs = k"
  shows "hide_byte k b (parse_bin xs) = (b AND NOT (mask k)) OR word_of_nat (bin_val xs)"
proof (cases "xs = []")
  case True
  with assms have "k = 0" by simp
  have "hide_byte k b (parse_bin xs) = hide_byte k b (Some 0)"
    using True by (simp add: hide_byte_def parse_bin_def to_int32_def)
  with True \<open>k = 0\<close> show ?thesis by (simp add: hide_byte_Some)
next
  case False
  have "bin_val xs < 2 ^ k" using bin_val_less [of xs] assms by simp
  with False assms show ?thesis by (simp add: parse_bin_def hide_byte_Some)
qed

lemma hide_keeps_upper:
  fixes b :: byte
  assumes "v < 2 ^ k"
  shows "((b AND NOT (mask k)) OR word_of_nat v) AND NOT (mask k) = b AND NOT (mask k)"
proof (rule bit_word_eqI)
  fix n assume "n < LENGTH(8)"
  have "bit v n \<Longrightarrow> n < k" using assms by (rule bit_nat_less_pow)
  then show "bit (((b AND NOT (mask k)) OR word_of_nat v) AND NOT (mask k)) n = bit (b AND NOT (mask k)) n"
    by (auto simp add: bit_simps)
qed

lemma hide_byte_parse_upper:
  fixes b :: byte
  assumes "k \<le> 8" and "length xs = k"
  shows "hide_byte k b (parse_bin xs) AND NOT (mask k) = b AND NOT (mask k)"
  using assms bin_val_less [of xs] by (simp add: hide_byte_parse hide_keeps_upper)

section \<open>What the encoder writes, byte by byte\<close>

lemma enc_ref_nth:
  "j < length data \<Longrightarrow>
   enc_ref k i bits data ! j =
     (if (i + j + 1) mod 4 = 0 \<or> length bits \<le> k * slots i j then data ! j
      else hide_byte k (data ! j) (parse_bin (pad_end k False (take k (drop (k * slots i j) bits)))))"
proof (induction data arbitrary: i bits j)
  case Nil
  then show ?case by simp
next
  case (Cons b bs)
  show ?case
  proof (cases j)
    case 0
    then show ?thesis by simp
  next
    case (Suc j')
    with Cons.prems have j': "j' < length bs" by simp
    show ?thesis
    proof (cases "bits = [] \<or> (i + 1) mod 4 = 0")
      case True
      with Suc Cons.IH [OF j', of "i + 1" bits] show ?thesis
        by (auto simp: slots_Suc)
    next
      case False
      then have s: "slots i j = Suc (slots (i + 1) j')"
        by (simp add: Suc slots_Suc)
      then have "length (drop k bits) \<le> k * slots (i + 1) j' \<longleftrightarrow> length bits \<le> k * slots i j"
        by (simp add: le_diff_conv add.commute)
      moreover have "drop (k * slots (i + 1) j') (drop k bits) = drop (k * slots i j) bits"
        using s by (simp add: add.commute)
      ultimately show ?thesis
        using False Suc Cons.IH [OF j', of "i + 1" "drop k bits"]
        by (simp add: ac_simps)
    qed
  qed
qed

section \<open>encodeLSB\<close>

lemma encode_loop_from_0:
  "encode_loop k full data 0 0 = enc_ref k 0 full data"
  by (simp add: encode_loop_enc_ref)

lemma encodeLSB_Inr:
  "encodeLSB cv message k = Inr (cv', r) \<longleftrightarrow>
   has_context cv \<and> cv' = cv\<lparr>img_data := enc_ref k 0 (fullBinary message) (img_data cv)\<rparr> \<and>
   r = \<lparr>dataUrl = toDataURL cv', capacity = 3 * length (img_data cv) * k div 32,
        messageLength = length message\<rparr>"
  by (auto simp add: encodeLSB_def Let_def encode_loop_from_0)

lemma enc_ref_encode_spec: "enc_ref k 0 full data = encode_spec k full data"
proof (rule nth_equalityI)
  show "length (enc_ref k 0 full data) = length (encode_spec k full data)"
    by (simp add: encode_spec_def)
next
  fix j assume "j < length (enc_ref k 0 full data)"
  then show "enc_ref k 0 full data ! j = encode_spec k full data ! j"
    by (simp add: enc_ref_nth encode_spec_def slots_from_0 substring_def Let_def)
qed

lemma encode_spec_nth:
  "j < length data \<Longrightarrow> (j + 1) mod 4 = 0 \<or> length full \<le> k * (j - j div 4) \<Longrightarrow>
   encode_spec k full data ! j = data ! j"
  by (simp add: encode_spec_def Let_def)

lemma encode_spec_hides:
  "j < length data \<Longrightarrow> \<exists>xs. length xs = k \<and>
     (encode_spec k full data ! j = data ! j \<or> encode_spec k full data ! j = hide_byte k (data ! j) (parse_bin xs))"
proof (cases "(j + 1) mod 4 = 0 \<or> length full \<le> k * (j - j div 4)")
  case True
  moreover assume "j < length data"
  ultimately show ?thesis
    by (intro exI [of _ "replicate k False"]) (simp add: encode_spec_nth)
next
  case False
  let ?p = "k * (j - j div 4)"
  let ?xs = "pad_end k False (substring full ?p (?p + k))"
  assume "j < length data"
  moreover have "length ?xs = k" by (simp add: substring_def)
  ultimately show ?thesis
    using False by (intro exI [of _ ?xs]) (simp add: encode_spec_def Let_def)
qed

text \<open>C4: \<open>encodeLSB\<close> implements its byte-by-byte specification: the buffer it
  puts back is \<open>encode_spec\<close> of the frame, and the result reports the PNG of that
  buffer, the capacity \<open>floor(3 * length * bitsPerChannel / 32)\<close> and the
  message length.\<close>

theorem encodeLSB_refines:
  "encodeLSB cv message k = Inr (cv', r) \<Longrightarrow>
   has_context cv \<and> img_data cv' = encode_spec k (fullBinary message) (img_data cv) \<and>
   img_width cv' = img_width cv \<and> img_height cv' = img_height cv \<and>
   dataUrl r = toDataURL cv' \<and> capacity r = 3 * length (img_data cv) * k div 32 \<and>
   messageLength r = length message"
  by (simp add: encodeLSB_Inr enc_ref_encode_spec)

theorem encodeLSB_refines_witness:
  "img_data (fst (projr (encodeLSB blank_4x4 [65] 1))) = encode_spec 1 (fullBinary [65]) (replicate 64 0)"
proof -
  have "encodeLSB blank_4x4 [65] 1 = Inr (fst (projr (encodeLSB blank_4x4 [65] 1)), snd (projr (encodeLSB blank_4x4 [65] 1)))"
    by (simp add: encodeLSB_def blank_4x4_def Let_def)
  from encodeLSB_refines [OF this] show ?thesis by (simp add: blank_4x4_def)
qed

text \<open>C7: the encoder never changes an alpha byte (every fourth byte).\<close>

theorem encodeLSB_alpha_untouched:
  "encodeLSB cv message k = Inr (cv', r) \<Longrightarrow> j < length (img_data cv) \<Longrightarrow> (j + 1) mod 4 = 0 \<Longrightarrow>
   img_data cv' ! j = img_data cv ! j"
  by (simp add: encodeLSB_Inr enc_ref_encode_spec encode_spec_nth)

theorem encodeLSB_alpha_untouched_witness:
  "img_data (fst (projr (encodeLSB blank_4x4 [65] 1))) ! 3 = 0"
proof -
  have "encodeLSB blank_4x4 [65] 1 = Inr (fst (projr (encodeLSB blank_4x4 [65] 1)), snd (projr (encodeLSB blank_4x4 [65] 1)))"
    by (simp add: encodeLSB_def blank_4x4_def Let_def)
  from encodeLSB_alpha_untouched [OF this, of 3] show ?thesis by (simp add: blank_4x4_def)
qed

text \<open>C8: for \<open>bitsPerChannel \<le> 8\<close> the encoder keeps the upper
  \<open>8 - bitsPerChannel\<close> bits of every byte: only the low bits change.\<close>

theorem encodeLSB_keeps_upper_bits:
  "encodeLSB cv message k = Inr (cv', r) \<Longrightarrow> k \<le> 8 \<Longrightarrow> j < length (img_data cv) \<Longrightarrow>
   img_data cv' ! j AND NOT (mask k) = img_data cv ! j AND NOT (mask k)"
  using encode_spec_hides [of j "img_data cv" k "fullBinary message"]
  by (auto simp add: encodeLSB_Inr enc_ref_encode_spec hide_byte_parse_upper)

theorem encodeLSB_keeps_upper_bits_witness:
  "img_data (fst (projr (encodeLSB white_4x4 [65] 1))) ! 0 AND NOT (mask 1) = 254"
proof -
  have "encodeLSB white_4x4 [65] 1 = Inr (fst (projr (encodeLSB white_4x4 [65] 1)), snd (projr (encodeLSB white_4x4 [65] 1)))"
    by (simp add: encodeLSB_def white_4x4_def Let_def)
  from encodeLSB_keeps_upper_bits [OF this, of 0] show ?thesis by (simp add: white_4x4_def)
qed

text \<open>C19: the bytes after the last one the frame reaches are left as they were.\<close>

theorem encodeLSB_tail_untouched:
  "encodeLSB cv message k = Inr (cv', r) \<Longrightarrow> j < length (img_data cv) \<Longrightarrow>
   length (fullBinary message) \<le> k * (j - j div 4) \<Longrightarrow>
   img_data cv' ! j = img_data cv ! j"
  by (simp add: encodeLSB_Inr enc_ref_encode_spec encode_spec_nth)

theorem encodeLSB_tail_untouched_witness:
  "img_data (fst (projr (encodeLSB blank_4x4 [65] 1))) ! 62 = 0"
proof -
  have e: "encodeLSB blank_4x4 [65] 1 = Inr (fst (projr (encodeLSB blank_4x4 [65] 1)), snd (projr (encodeLSB blank_4x4 [65] 1)))"
    by (simp add: encodeLSB_def blank_4x4_def Let_def)
  have len: "length (fullBinary [65]) \<le> 1 * (62 - 62 div 4)"
    by (simp add: length_fullBinary latin1_def)
  have "img_data (fst (projr (encodeLSB blank_4x4 [65] 1))) ! 62 = img_data blank_4x4 ! 62"
    using encodeLSB_tail_untouched [OF e _ len] by (simp add: blank_4x4_def)
  then show ?thesis by (simp add: blank_4x4_def)
qed

end
