(* ===== verification/Decoder.thy ===== *)
theory Decoder
  imports Frame
begin

text \<open>
  \<open>decodeLSB\<close> (\<open>src/src/utils/steganography.ts\<close>, lines 60--118): the low
  \<open>bitsPerChannel\<close> bits of every colour byte are read back in index order, in
  two phases of one walk (first the 32 header digits, then the message
  digits), with three checks that throw. \<open>extract_loop\<close> is the loop shared by
  both phases; \<open>stream\<close> is the whole digit stream the walk would produce, and
  \<open>decodeLSB_stream\<close> describes the decoder in terms of it.
\<close>

section \<open>Definitions\<close>

text \<open>\<open>const bitMask = (1 << bitsPerChannel) - 1\<close> (line 71): an int32 shift, a
  subtraction in double precision and the int32 conversion of \<open>&\<close>; the
  wrap-around of the 32-bit word gives the same value for every shift count.\<close>

definition dec_mask :: "nat \<Rightarrow> 32 word" where
  "dec_mask bitsPerChannel = push_bit (bitsPerChannel mod 32) 1 - 1"

text \<open>\<open>(data[i] & bitMask).toString(2).padStart(bitsPerChannel, '0')\<close> (lines 85
  and 106).\<close>

definition chunk_bits :: "nat \<Rightarrow> byte \<Rightarrow> bitstr" where
  "chunk_bits bitsPerChannel b =
     pad_start bitsPerChannel False (to_bin (unat (ucast b AND dec_mask bitsPerChannel :: 32 word)))"

text \<open>\<open>totalAvailableBits = (data.length / 4) * 3 * bitsPerChannel\<close> (line 75)
  and \<open>maxPossibleBytes = Math.floor((totalAvailableBits - 32) / 8)\<close> (line 96),
  in exact rational arithmetic.\<close>

definition total_available_bits :: "nat \<Rightarrow> nat \<Rightarrow> rat" where
  "total_available_bits len bitsPerChannel = of_nat len / 4 * 3 * of_nat bitsPerChannel"

definition max_possible_bytes :: "nat \<Rightarrow> nat \<Rightarrow> int" where
  "max_possible_bytes len bitsPerChannel = floor ((total_available_bits len bitsPerChannel - 32) / 8)"

text \<open>The extraction loops of lines 83--89 and 104--110: the same body, run
  until \<open>target\<close> digits are collected or the buffer ends; the index \<open>i\<close>
  carries over from the first loop to the second.\<close>

function extract_loop :: "nat \<Rightarrow> byte list \<Rightarrow> nat \<Rightarrow> nat \<Rightarrow> bitstr \<Rightarrow> nat \<times> bitstr" where
  "extract_loop bitsPerChannel data target i binaryString =
     (if length binaryString < target \<and> i < length data then
        extract_loop bitsPerChannel data target (i + 1)
          (if (i + 1) mod 4 \<noteq> 0 then binaryString @ chunk_bits bitsPerChannel (data ! i)
           else binaryString)
      else (i, binaryString))"
  by pat_completeness auto
termination
  by (relation "measure (\<lambda>(k, data, t, i, s). length data - i)") auto

declare extract_loop.simps [simp del]

text \<open>\<open>decodeLSB\<close>: context check (line 65), size check (lines 75--79), header
  (lines 82--92), header check (lines 96--100), message digits (lines
  103--114) and conversion (lines 116--117).\<close>

definition decodeLSB :: "canvas \<Rightarrow> nat \<Rightarrow> stego_error + jstring" where
  "decodeLSB cv bitsPerChannel =
     (if \<not> has_context cv then Inl NoContext
      else
        (let data = img_data cv;
             totalAvailableBits = total_available_bits (length data) bitsPerChannel
         in if totalAvailableBits < 32 then Inl TooSmall
         else
           (let (i, binaryString) = extract_loop bitsPerChannel data 32 0 [];
                lengthBits = substring binaryString 0 32;
                maxPossibleBytes = max_possible_bytes (length data) bitsPerChannel
            in case parse_bin lengthBits of
                 None \<Rightarrow> Inl NoValidMessage
               | Some messageLength \<Rightarrow>
                   if messageLength \<le> 0 \<or> int messageLength > maxPossibleBytes then Inl NoValidMessage
                   else
                     (let requiredBits = 32 + messageLength * 8;
                          (i', binaryString') = extract_loop bitsPerChannel data requiredBits i binaryString
                      in if length binaryString' < requiredBits then Inl EndedPrematurely
                         else Inr (binToString (substring binaryString' 32 requiredBits))))))"

text \<open>Reference: the digits the walk collects from a stretch of the buffer
  whose first byte has index \<open>i\<close>.\<close>

fun stream :: "nat \<Rightarrow> nat \<Rightarrow> byte list \<Rightarrow> bitstr" where
  "stream k i [] = []"
| "stream k i (b # bs) = (if (i + 1) mod 4 = 0 then [] else chunk_bits k b) @ stream k (i + 1) bs"

text \<open>Abstract specification of the decoder, given the buffer length and the
  digit stream: the size check, the header check, then the message digits.\<close>

definition decode_spec :: "nat \<Rightarrow> nat \<Rightarrow> bitstr \<Rightarrow> stego_error + jstring" where
  "decode_spec len k S =
     (if len * 3 * k < 128 then Inl TooSmall
      else
        (let m = bin_val (take 32 S)
         in if m = 0 \<or> len * 3 * k < 4 * (32 + 8 * m) then Inl NoValidMessage
            else Inr (binToString (take (8 * m) (drop 32 S)))))"

section \<open>Arithmetic of the checks\<close>

lemma total_available_bits_less_32:
  "total_available_bits len k < 32 \<longleftrightarrow> len * 3 * k < 128"
proof -
  have "total_available_bits len k < 32 \<longleftrightarrow> (of_nat (len * 3 * k) :: rat) < of_nat 128"
    by (simp add: total_available_bits_def field_simps)
  also have "\<dots> \<longleftrightarrow> len * 3 * k < 128" by (rule of_nat_less_iff)
  finally show ?thesis .
qed

lemma exceeds_max_possible_bytes:
  "int m > max_possible_bytes len k \<longleftrightarrow> len * 3 * k < 4 * (32 + 8 * m)"
proof -
  have "int m > max_possible_bytes len k \<longleftrightarrow> (total_available_bits len k - 32) / 8 < of_int (int m)"
    by (simp only: max_possible_bytes_def floor_less_iff)
  also have "\<dots> \<longleftrightarrow> (of_nat (len * 3 * k) :: rat) < of_nat (4 * (32 + 8 * m))"
    by (simp add: total_available_bits_def field_simps)
  also have "\<dots> \<longleftrightarrow> len * 3 * k < 4 * (32 + 8 * m)" by (rule of_nat_less_iff)
  finally show ?thesis .
qed

section \<open>The digits of one byte\<close>

lemma dec_mask_eq: "k < 32 \<Longrightarrow> dec_mask k = mask k"
  by (simp add: dec_mask_def mask_eq_exp_minus_1)

lemma unat_and_dec_mask:
  fixes b :: byte
  assumes "k < 32"
  shows "unat (ucast b AND dec_mask k :: 32 word) = unat b mod 2 ^ k"
proof -
  have "ucast b AND dec_mask k = (take_bit k (ucast b) :: 32 word)"
    using assms by (simp only: dec_mask_eq take_bit_eq_mask)
  moreover have "unat (take_bit k (ucast b) :: 32 word) = take_bit k (unat (ucast b :: 32 word))"
    by (simp only: unsigned_take_bit_eq)
  ultimately show ?thesis by (simp add: take_bit_eq_mod unat_ucast_byte_32)
qed

lemma chunk_bits_eq:
  "0 < k \<Longrightarrow> k < 32 \<Longrightarrow> chunk_bits k b = bits_of k (unat b mod 2 ^ k)"
  by (simp add: chunk_bits_def unat_and_dec_mask pad_start_to_bin)

lemma length_chunk_bits [simp]: "0 < k \<Longrightarrow> k < 32 \<Longrightarrow> length (chunk_bits k b) = k"
  by (simp add: chunk_bits_eq)

section \<open>The digit stream\<close>

lemma stream_append: "stream k i (xs @ ys) = stream k i xs @ stream k (i + length xs) ys"
  by (induction xs arbitrary: i) (simp_all add: ac_simps)

lemma length_stream:
  "0 < k \<Longrightarrow> k < 32 \<Longrightarrow> length (stream k i data) = k * slots i (length data)"
  by (induction data arbitrary: i) (simp_all add: slots_Suc algebra_simps)

text \<open>The whole walk yields at least the \<open>totalAvailableBits\<close> the decoder counts.\<close>

lemma total_bits_le_stream:
  "0 < k \<Longrightarrow> k < 32 \<Longrightarrow> length data * 3 * k \<le> 4 * length (stream k 0 data)"
proof -
  assume k: "0 < k" "k < 32"
  have "length data * 3 \<le> 4 * (length data - length data div 4)" by linarith
  then have "length data * 3 * k \<le> 4 * (length data - length data div 4) * k"
    by (rule mult_right_mono) simp
  with k show ?thesis by (simp add: length_stream slots_from_0 ac_simps)
qed

lemma stream_take_Suc:
  "i < length data \<Longrightarrow>
   stream k 0 (take (Suc i) data) =
     stream k 0 (take i data) @ (if (i + 1) mod 4 = 0 then [] else chunk_bits k (data ! i))"
  by (simp add: take_Suc_conv_app_nth stream_append)

text \<open>Invariant of the extraction loop: what it has collected is the stream of
  the bytes before its index; it stops with \<open>target\<close> digits or at the end.\<close>

lemma extract_loop_stream:
  "extract_loop k data t i s = (i', s') \<Longrightarrow> s = stream k 0 (take i data) \<Longrightarrow> i \<le> length data \<Longrightarrow>
   s' = stream k 0 (take i' data) \<and> i \<le> i' \<and> i' \<le> length data \<and> (t \<le> length s' \<or> i' = length data)"
proof (induction k data t i s arbitrary: i' s' rule: extract_loop.induct)
  case (1 k data t i s)
  show ?case
  proof (cases "length s < t \<and> i < length data")
    case True
    let ?s = "if (i + 1) mod 4 \<noteq> 0 then s @ chunk_bits k (data ! i) else s"
    have "extract_loop k data t i s =
        (if length s < t \<and> i < length data then extract_loop k data t (i + 1) ?s else (i, s))"
      by (rule extract_loop.simps)
    with True have "extract_loop k data t i s = extract_loop k data t (i + 1) ?s"
      by (simp only: if_P)
    with "1.prems"(1) have run: "extract_loop k data t (i + 1) ?s = (i', s')" by simp
    have acc: "?s = stream k 0 (take (i + 1) data)"
      using "1.prems"(2) True by (simp add: stream_take_Suc)
    have "i + 1 \<le> length data" using True by simp
    from "1.IH" [OF True run acc this]
    show ?thesis by linarith
  next
    case False
    have "extract_loop k data t i s =
        (if length s < t \<and> i < length data then extract_loop k data t (i + 1)
           (if (i + 1) mod 4 \<noteq> 0 then s @ chunk_bits k (data ! i) else s) else (i, s))"
      by (rule extract_loop.simps)
    with False have "extract_loop k data t i s = (i, s)"
      by (simp only: if_False)
    with "1.prems"(1) have "i' = i" and "s' = s" by simp_all
    moreover have "t \<le> length s \<or> i = length data"
      using False "1.prems"(3) by linarith
    ultimately show ?thesis using "1.prems"(2,3) by blast
  qed
qed

text \<open>One phase of the walk, started where the last one stopped, collects at
  least \<open>target\<close> digits when \<open>target\<close> is within \<open>totalAvailableBits\<close>, and
  what it has collected is a prefix of the stream.\<close>

lemma extract_loop_prefix:
  assumes run: "extract_loop k data t i (stream k 0 (take i data)) = (i', s')"
    and i: "i \<le> length data" and t: "4 * t \<le> length data * 3 * k" and k: "0 < k" "k < 32"
  shows "t \<le> length s' \<and> stream k 0 data = s' @ stream k i' (drop i' data)"
proof -
  have inv: "s' = stream k 0 (take i' data) \<and> i \<le> i' \<and> i' \<le> length data \<and>
      (t \<le> length s' \<or> i' = length data)"
    using run i by (rule extract_loop_stream [OF _ refl])
  then have s': "s' = stream k 0 (take i' data)" and le: "i' \<le> length data"
    and stop: "t \<le> length s' \<or> i' = length data"
    by blast+
  have "stream k 0 (take i' data @ drop i' data) =
      stream k 0 (take i' data) @ stream k (0 + length (take i' data)) (drop i' data)"
    by (rule stream_append)
  with le have "stream k 0 data = stream k 0 (take i' data) @ stream k i' (drop i' data)"
    by (simp add: min_absorb2)
  then have whole: "stream k 0 data = s' @ stream k i' (drop i' data)"
    by (simp only: s')
  have "t \<le> length (stream k 0 data)"
    using total_bits_le_stream [OF k, of data] t by linarith
  then have "t \<le> length s'"
    using stop s' by (auto simp del: stream.simps)
  with whole show ?thesis by blast
qed
section \<open>The decoder against the stream\<close>

text \<open>Refinement: for \<open>0 < bitsPerChannel < 32\<close> and a buffer past the size check,
  the two-phase walk with its checks computes a simple function of the stream:
  the header is its first 32 digits, and the message is the next
  \<open>8 * messageLength\<close> digits when they fit in \<open>totalAvailableBits\<close>.\<close>

lemma decodeLSB_stream:
  assumes ctx: "has_context cv" and k: "0 < k" "k < 32"
    and big: "128 \<le> length (img_data cv) * 3 * k"
  shows "decodeLSB cv k =
    (let S = stream k 0 (img_data cv); m = bin_val (take 32 S)
     in if m = 0 \<or> length (img_data cv) * 3 * k < 4 * (32 + 8 * m) then Inl NoValidMessage
        else Inr (binToString (take (8 * m) (drop 32 S))))"
proof -
  define data where "data = img_data cv"
  define S where "S = stream k 0 data"
  define m where "m = bin_val (take 32 S)"
  obtain i1 s1 where e1: "extract_loop k data 32 0 [] = (i1, s1)"
    by (cases "extract_loop k data 32 0 []") auto
  have e1': "extract_loop k data 32 0 (stream k 0 (take 0 data)) = (i1, s1)"
    using e1 by simp
  have inv1: "s1 = stream k 0 (take i1 data) \<and> 0 \<le> i1 \<and> i1 \<le> length data \<and>
      (32 \<le> length s1 \<or> i1 = length data)"
    using e1' by (rule extract_loop_stream [OF _ refl]) simp
  have p1: "32 \<le> length s1 \<and> S = s1 @ stream k i1 (drop i1 data)"
    unfolding S_def using e1' _ _ k by (rule extract_loop_prefix) (use big data_def in simp_all)
  then have hdr: "substring s1 0 32 = take 32 S"
    by (simp add: substring_def)
  moreover have "take 32 S \<noteq> []" using p1 by auto
  ultimately have parse: "parse_bin (substring s1 0 32) = Some m"
    by (simp add: parse_bin_def m_def)
  have not_small: "\<not> total_available_bits (length data) k < 32"
    using big by (simp add: total_available_bits_less_32 data_def)
  show ?thesis
  proof (cases "m = 0 \<or> length data * 3 * k < 4 * (32 + 8 * m)")
    case True
    then have "m \<le> 0 \<or> int m > max_possible_bytes (length data) k"
      by (auto simp: exceeds_max_possible_bytes)
    then show ?thesis
      using ctx not_small e1 parse True
      by (simp add: decodeLSB_def Let_def data_def [symmetric] S_def [symmetric] m_def [symmetric])
  next
    case False
    then have ok: "\<not> (m \<le> 0 \<or> int m > max_possible_bytes (length data) k)"
      by (auto simp: exceeds_max_possible_bytes)
    obtain i2 s2 where e2: "extract_loop k data (32 + m * 8) i1 s1 = (i2, s2)"
      by (cases "extract_loop k data (32 + m * 8) i1 s1") auto
    have e2': "extract_loop k data (32 + m * 8) i1 (stream k 0 (take i1 data)) = (i2, s2)"
      using e2 inv1 by simp
    have p2: "32 + m * 8 \<le> length s2 \<and> S = s2 @ stream k i2 (drop i2 data)"
      unfolding S_def using e2' _ _ k by (rule extract_loop_prefix) (use False inv1 in simp_all)
    then have msg: "substring s2 32 (32 + m * 8) = take (8 * m) (drop 32 S)"
      by (simp add: substring_def ac_simps)
    have "\<not> length s2 < 32 + m * 8" using p2 by simp
    then show ?thesis
      using ctx not_small e1 parse False ok e2 msg
      by (simp add: decodeLSB_def Let_def data_def [symmetric] S_def [symmetric] m_def [symmetric])
  qed
qed


lemma decodeLSB_no_context: "\<not> has_context cv \<Longrightarrow> decodeLSB cv k = Inl NoContext"
  by (simp add: decodeLSB_def)

lemma decodeLSB_too_small:
  "has_context cv \<Longrightarrow> length (img_data cv) * 3 * k < 128 \<Longrightarrow> decodeLSB cv k = Inl TooSmall"
  by (simp add: decodeLSB_def total_available_bits_less_32)

text \<open>C3: \<open>decodeLSB\<close> implements \<open>decode_spec\<close> on the stream of the low bits
  of the colour bytes, for every \<open>bitsPerChannel\<close> from 1 to 31, on every
  branch: the two-phase walk, the rational arithmetic of lines 75 and 96 and the
  three checks together compute the abstract decoder.\<close>

theorem decodeLSB_refines:
  "0 < k \<Longrightarrow> k < 32 \<Longrightarrow>
   decodeLSB cv k =
     (if has_context cv then decode_spec (length (img_data cv)) k (stream k 0 (img_data cv))
      else Inl NoContext)"
proof -
  assume k: "0 < k" "k < 32"
  show ?thesis
  proof (cases "has_context cv \<and> 128 \<le> length (img_data cv) * 3 * k")
    case True
    then show ?thesis
      using decodeLSB_stream [of cv k] k by (simp add: decode_spec_def Let_def)
  next
    case False
    then show ?thesis
      by (cases "has_context cv") (auto simp add: decode_spec_def decodeLSB_no_context decodeLSB_too_small)
  qed
qed

theorem decodeLSB_refines_witness:
  "decodeLSB blank_4x4 1 = Inl NoValidMessage"
proof -
  have "decodeLSB blank_4x4 1 =
     (if has_context blank_4x4
      then decode_spec (length (img_data blank_4x4)) 1 (stream 1 0 (img_data blank_4x4))
      else Inl NoContext)"
    by (rule decodeLSB_refines) simp_all
  also have "\<dots> = Inl NoValidMessage"
    by (simp add: blank_4x4_def) code_simp
  finally show ?thesis .
qed

text \<open>C12: the third check of \<open>decodeLSB\<close> (line 112) is dead code: for
  \<open>0 < bitsPerChannel < 32\<close> the decoder never reports that the image data ended
  prematurely, because the header check has already bounded the message by the
  digits the same buffer holds.\<close>

theorem decodeLSB_never_ended_prematurely:
  "0 < k \<Longrightarrow> k < 32 \<Longrightarrow> decodeLSB cv k \<noteq> Inl EndedPrematurely"
proof -
  assume k: "0 < k" "k < 32"
  show ?thesis
  proof (cases "has_context cv \<and> 128 \<le> length (img_data cv) * 3 * k")
    case True
    then show ?thesis
      using decodeLSB_stream [of cv k] k by (simp add: Let_def)
  next
    case False
    then show ?thesis
      by (cases "has_context cv") (auto simp add: decodeLSB_no_context decodeLSB_too_small)
  qed
qed

theorem decodeLSB_never_ended_prematurely_witness:
  "decodeLSB blank_4x4 4 \<noteq> Inl EndedPrematurely"
  by (rule decodeLSB_never_ended_prematurely) simp_all

text \<open>C21: the decoder reports an image too small exactly when the buffer holds
  fewer than 32 digits in its colour bytes (\<open>length * 3 * k / 4 < 32\<close>).\<close>

theorem decodeLSB_too_small_iff:
  "0 < k \<Longrightarrow> k < 32 \<Longrightarrow> has_context cv \<Longrightarrow>
   decodeLSB cv k = Inl TooSmall \<longleftrightarrow> length (img_data cv) * 3 * k < 128"
  using decodeLSB_stream [of cv k] decodeLSB_too_small [of cv k]
  by (cases "length (img_data cv) * 3 * k < 128") (simp_all add: Let_def)

theorem decodeLSB_too_small_iff_witness:
  "decodeLSB tiny_2x1 1 = Inl TooSmall"
  using decodeLSB_too_small_iff [of 1 tiny_2x1] by (simp add: tiny_2x1_def)

lemma decodeLSB_Inr_binToString: "decodeLSB cv k = Inr msg \<Longrightarrow> \<exists>bits. msg = binToString bits"
  by (auto simp add: decodeLSB_def Let_def split: if_splits option.splits prod.splits)

text \<open>C17: whatever the canvas and the bits per channel, a message that
  \<open>decodeLSB\<close> returns consists of UTF-16 units below 256: the decoder can only produce
  Latin-1 text.\<close>

theorem decodeLSB_latin1: "decodeLSB cv k = Inr msg \<Longrightarrow> latin1 msg"
  using decodeLSB_Inr_binToString latin1_binToString by blast

text \<open>A 2 by 2 canvas holding the header 1 and the letter "A" in four bits per
  channel.\<close>

theorem decodeLSB_latin1_witness:
  "decodeLSB \<lparr>img_width = 2, img_height = 2,
      img_data = [0, 0, 0, 255, 0, 0, 0, 255, 0, 1, 4, 255, 1, 0, 0, 255], has_context = True\<rparr> 4
     = Inr [65] \<and> latin1 [65]"
proof -
  have "decodeLSB \<lparr>img_width = 2, img_height = 2,
      img_data = [0, 0, 0, 255, 0, 0, 0, 255, 0, 1, 4, 255, 1, 0, 0, 255], has_context = True\<rparr> 4
     = Inr [65]"
    by code_simp
  then show ?thesis using decodeLSB_latin1 by blast
qed

end
