(* ===== verification/Codec.thy ===== *)
theory Codec
  imports Encoder Decoder
begin

text \<open>
  How the encoder and the decoder of \<open>src/src/utils/steganography.ts\<close> fit
  together: the digits a byte written by \<open>hide_byte\<close> yields to
  \<open>chunk_bits\<close>, the stream of an encoded buffer, and the outcome of decoding
  what \<open>encodeLSB\<close> produced.
\<close>

lemma unat_hide_mod:
  fixes b :: byte
  assumes "k \<le> 8" and "v < 2 ^ k"
  shows "unat ((b AND NOT (mask k)) OR word_of_nat v) mod 2 ^ k = v"
proof -
  let ?y = "(b AND NOT (mask k)) OR word_of_nat v"
  have "take_bit k ?y = word_of_nat v"
  proof (rule bit_word_eqI)
    fix n assume "n < LENGTH(8)"
    have "bit v n \<Longrightarrow> n < k" using assms(2) by (rule bit_nat_less_pow)
    then show "bit (take_bit k ?y) n = bit (word_of_nat v :: byte) n"
      by (auto simp add: bit_simps)
  qed
  then have "unat (take_bit k ?y) = unat (word_of_nat v :: byte)" by simp
  moreover have "unat (take_bit k ?y) = unat ?y mod 2 ^ k"
    by (simp only: unsigned_take_bit_eq) (simp add: take_bit_eq_mod)
  moreover have "v < 2 ^ 8"
    using assms power_increasing [of k 8 "2::nat"] by simp
  then have "unat (word_of_nat v :: byte) = v"
    by (simp add: unsigned_of_nat take_bit_nat_eq_self)
  ultimately show ?thesis by simp
qed

text \<open>A group of \<open>k\<close> digits written into a byte is read back unchanged.\<close>

lemma chunk_bits_hide_byte:
  assumes "0 < k" "k \<le> 8" and "length xs = k"
  shows "chunk_bits k (hide_byte k b (parse_bin xs)) = xs"
proof -
  have "bin_val xs < 2 ^ k" using bin_val_less [of xs] assms by simp
  with assms show ?thesis
    by (simp add: hide_byte_parse chunk_bits_eq unat_hide_mod bits_of_bin_val)
qed

text \<open>The stream of an encoded buffer starts with the digits written, as far as
  both the digits and the buffer's capacity reach.\<close>

lemma stream_enc_ref:
  "0 < k \<Longrightarrow> k \<le> 8 \<Longrightarrow> n \<le> length bits \<Longrightarrow> n \<le> length (stream k i data) \<Longrightarrow>
   take n (stream k i (enc_ref k i bits data)) = take n bits"
proof (induction data arbitrary: i bits n)
  case Nil
  then show ?case by simp
next
  case (Cons b bs)
  show ?case
  proof (cases "bits = [] \<or> (i + 1) mod 4 = 0")
    case True
    with Cons show ?thesis by auto
  next
    case False
    let ?c = "pad_end k False (take k bits)"
    have c: "length ?c = k" by simp
    have hd: "stream k i (enc_ref k i bits (b # bs)) = ?c @ stream k (i + 1) (enc_ref k (i + 1) (drop k bits) bs)"
      using False Cons.prems(1,2) c by (simp add: chunk_bits_hide_byte)
    have len: "length (stream k i (b # bs)) = k + length (stream k (i + 1) bs)"
      using False Cons.prems(1,2) by simp
    show ?thesis
    proof (cases "n \<le> k")
      case True
      then have "take n ?c = take n bits"
        using Cons.prems(3) by (simp add: pad_end_def take_append min_def)
      with True c show ?thesis unfolding hd by simp
    next
      case False
      then have ck: "?c = take k bits" using Cons.prems(3) by (simp add: pad_end_def)
      have "take (n - k) (stream k (i + 1) (enc_ref k (i + 1) (drop k bits) bs)) = take (n - k) (drop k bits)"
        using Cons.prems len by (intro Cons.IH) simp_all
      moreover have "take n bits = take k bits @ take (n - k) (drop k bits)"
        using take_add [of k "n - k" bits] False by simp
      moreover have "length (take k bits) = k" using False Cons.prems(3) by simp
      moreover have "min n k = k" using False by simp
      ultimately show ?thesis
        unfolding hd ck by simp
    qed
  qed
qed

text \<open>Decoding a buffer that holds the encoder's output, at the level of the data.\<close>

lemma decode_enc_ref:
  assumes ctx: "has_context cv" and k: "0 < k" "k \<le> 8" and lat: "latin1 msg" "length msg < 2 ^ 32"
  shows "decodeLSB (cv\<lparr>img_data := enc_ref k 0 (fullBinary msg) (img_data cv)\<rparr>) k =
    (if length (img_data cv) * 3 * k < 128 then Inl TooSmall
     else if msg = [] \<or> length (img_data cv) * 3 * k < 4 * (32 + 8 * length msg)
     then Inl NoValidMessage
     else Inr msg)"
proof -
  define data where "data = img_data cv"
  define full where "full = fullBinary msg"
  define m where "m = length msg"
  define cv' where "cv' = cv\<lparr>img_data := enc_ref k 0 full data\<rparr>"
  have cv': "has_context cv'" "img_data cv' = enc_ref k 0 full data"
    using ctx by (simp_all add: cv'_def)
  have lh: "length (lengthHeader msg) = 32"
    using lat(2) by (rule length_lengthHeader)
  have lenfull: "length full = 32 + 8 * m"
    using lat by (simp add: full_def m_def length_fullBinary)
  show ?thesis
  proof (cases "length data * 3 * k < 128")
    case True
    then show ?thesis
      using cv' by (simp add: decodeLSB_too_small data_def cv'_def full_def)
  next
    case False
    let ?S = "stream k 0 (enc_ref k 0 full data)"
    have cap: "length data * 3 * k \<le> 4 * length (stream k 0 data)"
      using k by (intro total_bits_le_stream) simp_all
    have "take 32 ?S = take 32 full"
      using k False cap lenfull by (intro stream_enc_ref) simp_all
    then have hdr: "take 32 ?S = lengthHeader msg"
      using lat by (simp add: full_def fullBinary_def)
    have m': "bin_val (take 32 ?S) = m"
      using lat by (simp add: hdr lengthHeader_bits m_def)
    have dec: "decodeLSB cv' k =
      (if m = 0 \<or> length data * 3 * k < 4 * (32 + 8 * m) then Inl NoValidMessage
       else Inr (binToString (take (8 * m) (drop 32 ?S))))"
      using decodeLSB_stream [of cv' k] cv' k False m' by (simp add: Let_def)
    show ?thesis
    proof (cases "m = 0 \<or> length data * 3 * k < 4 * (32 + 8 * m)")
      case True
      then show ?thesis using False dec by (auto simp: m_def data_def cv'_def full_def)
    next
      case fits: False
      have "take (32 + 8 * m) ?S = take (32 + 8 * m) full"
        using k fits cap lenfull by (intro stream_enc_ref) simp_all
      then have "take (8 * m) (drop 32 ?S) = stringToBin msg"
        using lenfull lh by (simp add: take_drop full_def fullBinary_def ac_simps)
      then show ?thesis
        using False fits dec lat by (simp add: binToString_stringToBin m_def data_def cv'_def full_def)
    qed
  qed
qed

end
