(* ===== verification/Resampler.thy ===== *)
theory Resampler
  imports Prelude
begin

text \<open>
  \<open>scaleImage\<close> (\<open>src/src/utils/steganography.ts\<close>, lines 132--148): a new
  canvas of the image's size times \<open>scale\<close>, its 2D context, and \<open>drawImage\<close>
  with smoothing. The interpolation is the browser's: the model takes the drawn
  pixels as a function \<open>draw img w h\<close> of the image and the target size, and
  states what it needs of it as the predicate \<open>draws_rgba\<close> (four bytes per
  pixel). The lemmas give the canvas's dimensions: the products truncated to
  integers.
\<close>

section \<open>Definitions\<close>

text \<open>What the application needs of \<open>drawImage(img, 0, 0, w, h)\<close> on a fresh
  \<open>w\<close> by \<open>h\<close> canvas: an RGBA buffer of that size.\<close>

definition draws_rgba :: "(image \<Rightarrow> nat \<Rightarrow> nat \<Rightarrow> byte list) \<Rightarrow> bool" where
  "draws_rgba draw \<longleftrightarrow> (\<forall>img w h. length (draw img w h) = 4 * w * h)"

text \<open>Assigning a number to \<open>canvas.width\<close> or \<open>canvas.height\<close> (lines 136--137):
  the \<open>unsigned long\<close> conversion \<open>to_uint32\<close>, then the reflection of the
  attribute, which keeps values up to \<open>2^31 - 1\<close> and stores the default
  (300 for the width, 150 for the height) otherwise.\<close>

definition canvas_dim :: "nat \<Rightarrow> rat \<Rightarrow> nat" where
  "canvas_dim dflt x = (let u = to_uint32 x in if u \<le> 2147483647 then u else dflt)"

text \<open>\<open>scaleImage\<close>: \<open>ctx_ok\<close> says whether \<open>getContext('2d')\<close> returns a
  context (line 140 throws otherwise). The canvas keeps its context for
  \<open>encodeLSB\<close>.\<close>

definition scaleImage ::
  "(image \<Rightarrow> nat \<Rightarrow> nat \<Rightarrow> byte list) \<Rightarrow> bool \<Rightarrow> image \<Rightarrow> rat \<Rightarrow> stego_error + canvas" where
  "scaleImage draw ctx_ok img scale =
     (let width = canvas_dim 300 (of_nat (img_width img) * scale);
          height = canvas_dim 150 (of_nat (img_height img) * scale)
      in if \<not> ctx_ok then Inl NoContext
         else Inr \<lparr>img_width = width, img_height = height, img_data = draw img width height,
                   has_context = True\<rparr>)"

section \<open>Lemmas\<close>

lemma canvas_dim_below:
  assumes "0 \<le> x" "x < 2 ^ 31"
  shows "canvas_dim d x = nat \<lfloor>x\<rfloor>"
proof -
  have f: "0 \<le> \<lfloor>x\<rfloor>" "\<lfloor>x\<rfloor> < 2 ^ 31"
    using assms by (simp_all add: floor_less_iff)
  then have "to_uint32 x = nat \<lfloor>x\<rfloor>"
    using assms by (simp add: to_uint32_def)
  moreover have "\<lfloor>x\<rfloor> \<le> 2147483647"
    using f(2) by simp
  then have "nat \<lfloor>x\<rfloor> \<le> 2147483647"
    by (simp add: nat_le_iff)
  ultimately show ?thesis by (simp add: canvas_dim_def)
qed

lemma canvas_dim_of_nat: "n < 2 ^ 31 \<Longrightarrow> canvas_dim d (of_nat n) = n"
  using canvas_dim_below [of "of_nat n"] by simp

lemma scaleImage_Inr:
  "scaleImage draw ctx_ok img scale = Inr cv \<longleftrightarrow>
   ctx_ok \<and> cv = \<lparr>img_width = canvas_dim 300 (of_nat (img_width img) * scale),
                  img_height = canvas_dim 150 (of_nat (img_height img) * scale),
                  img_data = draw img (canvas_dim 300 (of_nat (img_width img) * scale))
                                      (canvas_dim 150 (of_nat (img_height img) * scale)),
                  has_context = True\<rparr>"
  by (auto simp add: scaleImage_def Let_def)

lemma scaleImage_wf:
  "draws_rgba draw \<Longrightarrow> scaleImage draw ctx_ok img scale = Inr cv \<Longrightarrow> wf_image cv"
  by (simp add: scaleImage_Inr draws_rgba_def wf_image_def)

end
