(* ===== verification/App.thy ===== *)
theory App
  imports Codec Resampler
begin

text \<open>
  The React component \<open>App\<close> (\<open>src/src/App.tsx\<close>) as a state machine. Its
  \<open>useState\<close> hooks are the fields of the record \<open>app_state\<close>; the closure of
  \<open>handleProcess\<close> that is suspended at its \<open>await\<close> is the field \<open>pending\<close> of
  the extension \<open>app_sys\<close>. Each handler is one event of \<open>app_step\<close>: the
  handler's state updates, then the \<open>useEffect\<close> hooks whose dependencies
  changed (\<open>render\<close>). \<open>handleProcess\<close> is split at its \<open>await\<close> into the event
  \<open>Process\<close> (lines 68--70, the snapshot of the render's values) and the event
  \<open>ProcessDone\<close> (lines 72--99, run on the snapshot), so that other events can
  come in between, as they can in the browser. The browser's drawing and its
  2D context are the parameters of the record \<open>browser\<close>.
\<close>

section \<open>State\<close>

datatype mode = Encode | Decode

text \<open>The state hooks of lines 24--34. \<open>image\<close> (the data URL shown as preview,
  named \<open>image_st\<close> beside HOL's \<open>image\<close>) is the picture it encodes;
  \<open>error\<close> holds the error the message of which is shown.\<close>

record app_state =
  image_st :: "image option"
  originalImage :: "image option"
  message :: jstring
  decodedMessage :: "jstring option"
  bitsPerChannel :: nat
  scale :: rat
  mode :: mode
  resultImage :: "image option"
  isProcessing :: bool
  error :: "stego_error option"
  capacity_st :: int

text \<open>What \<open>handleProcess\<close> reads after its \<open>await\<close>: the values of the render in
  which the button was clicked, captured by the closure.\<close>

record task =
  task_image :: image
  task_mode :: mode
  task_scale :: rat
  task_message :: jstring
  task_capacity :: int
  task_bits :: nat

record app_sys = app_state +
  pending :: "task option"

record browser =
  draw :: "image \<Rightarrow> nat \<Rightarrow> nat \<Rightarrow> byte list"
  ctx_available :: bool

datatype outcome = Encoded image | Decoded jstring

text \<open>The user's actions. \<open>downloadResult\<close> only clicks a link and changes no state.\<close>

datatype app_event =
    Upload image | SetMessage jstring | SetBits nat | SetScale rat | SetMode mode
  | Process | ProcessDone | Reset

section \<open>Effects\<close>

text \<open>The capacity effect, lines 38--46: the pixel count of the scaled image
  (before truncation), three colour channels, and four bytes for the header.\<close>

definition capacityBytes :: "image \<Rightarrow> rat \<Rightarrow> nat \<Rightarrow> int" where
  "capacityBytes img sc k =
     (let pixels = (of_nat (img_width img) * sc) * (of_nat (img_height img) * sc);
          totalBits = pixels * 3 * of_nat k;
          bytes = \<lfloor>totalBits / 8\<rfloor> - 4
      in max 0 bytes)"

text \<open>The effect runs when a dependency changed; \<open>fresh\<close> says that a new
  \<open>HTMLImageElement\<close> was stored (a new object, so a change for React also
  when it shows the same picture).\<close>

definition capacity_effect :: "bool \<Rightarrow> app_sys \<Rightarrow> app_sys \<Rightarrow> app_sys" where
  "capacity_effect fresh old new =
     (if fresh \<or> originalImage new \<noteq> originalImage old \<or> scale new \<noteq> scale old
         \<or> bitsPerChannel new \<noteq> bitsPerChannel old
      then (case originalImage new of
              None \<Rightarrow> new
            | Some img \<Rightarrow> new\<lparr>capacity_st := capacityBytes img (scale new) (bitsPerChannel new)\<rparr>)
      else new)"

text \<open>The mode effect, lines 120--124.\<close>

definition mode_effect :: "app_sys \<Rightarrow> app_sys \<Rightarrow> app_sys" where
  "mode_effect old new =
     (if mode new \<noteq> mode old
      then new\<lparr>decodedMessage := None, resultImage := None, error := None\<rparr>
      else new)"

definition render :: "bool \<Rightarrow> app_sys \<Rightarrow> app_sys \<Rightarrow> app_sys" where
  "render fresh old new = mode_effect old (capacity_effect fresh old new)"

section \<open>Handlers\<close>

text \<open>\<open>handleImageUpload\<close>, lines 48--65, once the image has loaded.\<close>

definition handleImageUpload :: "image \<Rightarrow> app_sys \<Rightarrow> app_sys" where
  "handleImageUpload img s =
     s\<lparr>originalImage := Some img, image_st := Some img, resultImage := None,
       decodedMessage := None, error := None\<rparr>"

text \<open>The process button's \<open>disabled\<close> attribute, line 283.\<close>

definition process_enabled :: "app_sys \<Rightarrow> bool" where
  "process_enabled s \<longleftrightarrow>
     image_st s \<noteq> None \<and> \<not> isProcessing s \<and> \<not> (mode s = Encode \<and> message s = [])"

text \<open>\<open>handleProcess\<close> up to its \<open>await\<close>, lines 67--70.\<close>

definition handleProcess_start :: "app_sys \<Rightarrow> app_sys" where
  "handleProcess_start s =
     (case originalImage s of
        None \<Rightarrow> s
      | Some img \<Rightarrow>
          s\<lparr>isProcessing := True, error := None,
            pending := Some \<lparr>task_image = img, task_mode = mode s, task_scale = scale s,
                             task_message = message s, task_capacity = capacity_st s,
                             task_bits = bitsPerChannel s\<rparr>\<rparr>)"

text \<open>The body of the \<open>try\<close> block, lines 75--95: in encode mode the scaled
  canvas, the capacity check, \<open>encodeLSB\<close>; in decode mode a canvas of the
  image's own size, its context, \<open>drawImage\<close> at that size, \<open>decodeLSB\<close>.\<close>

definition process_task :: "browser \<Rightarrow> task \<Rightarrow> stego_error + outcome" where
  "process_task env t =
     (if task_mode t = Encode then
        (case scaleImage (draw env) (ctx_available env) (task_image t) (task_scale t) of
           Inl e \<Rightarrow> Inl e
         | Inr scaledCanvas \<Rightarrow>
             if int (length (task_message t)) > task_capacity t
             then Inl (MessageTooLong (nat (task_capacity t)))
             else (case encodeLSB scaledCanvas (task_message t) (task_bits t) of
                     Inl e \<Rightarrow> Inl e
                   | Inr (cv, result) \<Rightarrow> Inr (Encoded (dataUrl result))))
      else
        (let img = task_image t;
             w = img_width img; h = img_height img
         in if \<not> ctx_available env then Inl NoContext
            else (case decodeLSB \<lparr>img_width = w, img_height = h, img_data = draw env img w h,
                                  has_context = True\<rparr> (task_bits t) of
                    Inl e \<Rightarrow> Inl e
                  | Inr decoded \<Rightarrow> Inr (Decoded decoded))))"

text \<open>\<open>handleProcess\<close> after its \<open>await\<close>: the outcome, the \<open>catch\<close> block
  (line 97) and the \<open>finally\<close> block (line 99).\<close>

definition handleProcess_finish :: "browser \<Rightarrow> task \<Rightarrow> app_sys \<Rightarrow> app_sys" where
  "handleProcess_finish env t s =
     (case process_task env t of
        Inl e \<Rightarrow> s\<lparr>error := Some e\<rparr>
      | Inr (Encoded png) \<Rightarrow> s\<lparr>resultImage := Some png\<rparr>
      | Inr (Decoded d) \<Rightarrow> s\<lparr>decodedMessage := Some d\<rparr>)\<lparr>isProcessing := False, pending := None\<rparr>"

text \<open>\<open>resetAll\<close>, lines 110--118: the mode, the settings, the capacity and
  \<open>isProcessing\<close> are kept.\<close>

definition resetAll :: "app_sys \<Rightarrow> app_sys" where
  "resetAll s =
     s\<lparr>image_st := None, originalImage := None, message := [], decodedMessage := None,
       resultImage := None, error := None\<rparr>"

section \<open>The state machine\<close>

text \<open>The initial state (the \<open>useState\<close> arguments); the effects' first run
  changes nothing, as there is no image and nothing to clear.\<close>

definition init_app :: app_sys where
  "init_app = \<lparr>image_st = None, originalImage = None, message = [], decodedMessage = None,
     bitsPerChannel = 1, scale = 1, mode = Encode, resultImage = None, isProcessing = False,
     error = None, capacity_st = 0, pending = None\<rparr>"

fun app_step :: "browser \<Rightarrow> app_event \<Rightarrow> app_sys \<Rightarrow> app_sys" where
  "app_step env (Upload img) s = render True s (handleImageUpload img s)"
| "app_step env (SetMessage m) s = render False s (s\<lparr>message := m\<rparr>)"
| "app_step env (SetBits b) s = render False s (s\<lparr>bitsPerChannel := b\<rparr>)"
| "app_step env (SetScale x) s = render False s (s\<lparr>scale := x\<rparr>)"
| "app_step env (SetMode md) s = render False s (s\<lparr>mode := md\<rparr>)"
| "app_step env Process s =
     (if process_enabled s then render False s (handleProcess_start s) else s)"
| "app_step env ProcessDone s =
     (case pending s of None \<Rightarrow> s | Some t \<Rightarrow> render False s (handleProcess_finish env t s))"
| "app_step env Reset s = render False s (resetAll s)"

text \<open>The values the controls produce: the slider of lines 210--218 (1 to 4 in
  steps of 0.5; in decode mode its panel only ignores the pointer, line 198, so
  the keyboard can still move it), the buttons of lines 246--254, and an
  uploaded picture: a decoded RGBA image whose sides stay below \<open>2^31\<close> even
  at scale 4, as the canvas dimensions must.\<close>

definition scale_values :: "rat list" where
  "scale_values = [1, 3 / 2, 2, 5 / 2, 3, 7 / 2, 4]"

definition upload_ok :: "image \<Rightarrow> bool" where
  "upload_ok img \<longleftrightarrow> wf_image img \<and> 4 * img_width img < 2 ^ 31 \<and> 4 * img_height img < 2 ^ 31"

fun ui_event :: "app_sys \<Rightarrow> app_event \<Rightarrow> bool" where
  "ui_event s (Upload img) = upload_ok img"
| "ui_event s (SetBits b) = (b \<in> set [1, 2, 3, 4])"
| "ui_event s (SetScale x) = (x \<in> set scale_values)"
| "ui_event s e = True"

inductive reachable :: "browser \<Rightarrow> app_sys \<Rightarrow> bool" for env where
  reachable_init: "reachable env init_app"
| reachable_step: "reachable env s \<Longrightarrow> ui_event s e \<Longrightarrow> reachable env (app_step env e s)"

fun run :: "browser \<Rightarrow> app_event list \<Rightarrow> app_sys \<Rightarrow> app_sys" where
  "run env [] s = s"
| "run env (e # es) s = run env es (app_step env e s)"


section \<open>Invariant and environment\<close>

text \<open>A snapshot taken by \<open>Process\<close>: the uploaded image, the settings the
  controls allow, the capacity computed for them, and a message in encode mode.\<close>

definition task_ok :: "task \<Rightarrow> bool" where
  "task_ok t \<longleftrightarrow>
     upload_ok (task_image t) \<and> task_bits t \<in> set [1, 2, 3, 4] \<and> task_scale t \<in> set scale_values
     \<and> task_capacity t = capacityBytes (task_image t) (task_scale t) (task_bits t)
     \<and> (task_mode t = Encode \<longrightarrow> task_message t \<noteq> [])"

text \<open>The invariant of the reachable states: the preview is the loaded image,
  \<open>isProcessing\<close> is set exactly while a task is suspended, the settings are
  values of the controls, the capacity is the one computed for the current image
  and settings, and a suspended task is well formed.\<close>

definition app_inv :: "app_sys \<Rightarrow> bool" where
  "app_inv s \<longleftrightarrow>
     image_st s = originalImage s \<and> (isProcessing s \<longleftrightarrow> pending s \<noteq> None)
     \<and> bitsPerChannel s \<in> set [1, 2, 3, 4] \<and> scale s \<in> set scale_values
     \<and> (case originalImage s of None \<Rightarrow> True
         | Some img \<Rightarrow> upload_ok img \<and> capacity_st s = capacityBytes img (scale s) (bitsPerChannel s))
     \<and> (case pending s of None \<Rightarrow> True | Some t \<Rightarrow> task_ok t)"

text \<open>What the end-to-end properties assume of the browser: \<open>drawImage\<close> at any
  size gives an RGBA buffer, and at the image's own size gives back its pixels
  (the PNG of the data URL, loaded again, is the canvas's pixels). Browsers keep
  canvases with premultiplied alpha, which rounds the colour bytes of pixels
  whose alpha is below 255, so this holds for opaque images (and for browsers
  that do not premultiply); it is a hypothesis of the theorems, not a fact.\<close>

definition browser_ok :: "browser \<Rightarrow> bool" where
  "browser_ok env \<longleftrightarrow> draws_rgba (draw env) \<and>
     (\<forall>img. wf_image img \<longrightarrow> draw env img (img_width img) (img_height img) = img_data img)"

text \<open>Traces, and a browser and images for the examples: the browser copies an
  image drawn at its own size and draws black pixels when it resamples.\<close>

fun ui_trace :: "browser \<Rightarrow> app_sys \<Rightarrow> app_event list \<Rightarrow> bool" where
  "ui_trace env s [] = True"
| "ui_trace env s (e # es) = (ui_event s e \<and> ui_trace env (app_step env e s) es)"

definition example_browser :: browser where
  "example_browser =
     \<lparr>draw = (\<lambda>img w h. if w = img_width img \<and> h = img_height img \<and> length (img_data img) = 4 * w * h
                       then img_data img else replicate (4 * w * h) 0),
      ctx_available = True\<rparr>"

definition black_3x3 :: image where
  "black_3x3 = \<lparr>img_width = 3, img_height = 3, img_data = replicate 36 0\<rparr>"

definition black_4x4 :: image where
  "black_4x4 = \<lparr>img_width = 4, img_height = 4, img_data = replicate 64 0\<rparr>"

section \<open>Lemmas\<close>

lemma capacityBytes_of_nat:
  "capacityBytes img (of_nat n) k =
     max 0 (int (3 * (img_width img * n) * (img_height img * n) * k) div 8 - 4)"
proof -
  have "(of_nat (img_width img) * of_nat n) * (of_nat (img_height img) * of_nat n) * 3 * of_nat k / 8
        = (of_nat (3 * (img_width img * n) * (img_height img * n) * k) / of_nat 8 :: rat)"
    by (simp add: ac_simps)
  then have "\<lfloor>(of_nat (img_width img) * of_nat n) * (of_nat (img_height img) * of_nat n) * 3 * of_nat k / 8 :: rat\<rfloor>
        = int (3 * (img_width img * n) * (img_height img * n) * k) div 8"
    by (simp only: floor_divide_of_nat_eq)
  then show ?thesis by (simp add: capacityBytes_def Let_def)
qed

lemma capacity_fits_iff:
  assumes "0 < m"
  shows "int m \<le> max 0 (int X div 8 - 4) \<longleftrightarrow> 32 + 8 * m \<le> X"
proof -
  have e: "int X div 8 = int (X div 8)" by (simp add: zdiv_int)
  have "int m \<le> max 0 (int X div 8 - 4) \<longleftrightarrow> m + 4 \<le> X div 8"
    using assms unfolding e by linarith
  also have "\<dots> \<longleftrightarrow> (m + 4) * 8 \<le> X"
    by (simp only: less_eq_div_iff_mult_less_eq zero_less_numeral)
  finally show ?thesis by arith
qed

lemma render_keeps:
  "image_st (render f old new) = image_st new"
  "originalImage (render f old new) = originalImage new"
  "message (render f old new) = message new"
  "bitsPerChannel (render f old new) = bitsPerChannel new"
  "scale (render f old new) = scale new"
  "mode (render f old new) = mode new"
  "isProcessing (render f old new) = isProcessing new"
  "pending (render f old new) = pending new"
  by (simp_all add: render_def mode_effect_def capacity_effect_def split: option.split)

lemma render_capacity:
  "capacity_st (render f old new) =
     (if f \<or> originalImage new \<noteq> originalImage old \<or> scale new \<noteq> scale old
         \<or> bitsPerChannel new \<noteq> bitsPerChannel old
      then (case originalImage new of None \<Rightarrow> capacity_st new
            | Some img \<Rightarrow> capacityBytes img (scale new) (bitsPerChannel new))
      else capacity_st new)"
  by (simp add: render_def mode_effect_def capacity_effect_def split: option.split)

lemma handleProcess_finish_keeps:
  "image_st (handleProcess_finish env t s) = image_st s"
  "originalImage (handleProcess_finish env t s) = originalImage s"
  "message (handleProcess_finish env t s) = message s"
  "bitsPerChannel (handleProcess_finish env t s) = bitsPerChannel s"
  "scale (handleProcess_finish env t s) = scale s"
  "mode (handleProcess_finish env t s) = mode s"
  "capacity_st (handleProcess_finish env t s) = capacity_st s"
  "isProcessing (handleProcess_finish env t s) = False"
  "pending (handleProcess_finish env t s) = None"
  by (simp_all add: handleProcess_finish_def split: sum.split outcome.split)

lemmas app_state_simps = render_keeps render_capacity handleProcess_finish_keeps
  handleImageUpload_def resetAll_def handleProcess_start_def

lemma app_inv_init: "app_inv init_app"
  by (simp add: app_inv_def init_app_def scale_values_def)

lemma app_inv_step:
  assumes inv: "app_inv s" and ev: "ui_event s e"
  shows "app_inv (app_step env e s)"
proof (cases e)
  case (Upload img)
  then show ?thesis using inv ev by (auto simp add: app_inv_def app_state_simps split: option.splits)
next
  case (SetMessage m)
  then show ?thesis using inv by (auto simp add: app_inv_def app_state_simps split: option.splits)
next
  case (SetBits b)
  then show ?thesis using inv ev by (auto simp add: app_inv_def app_state_simps split: option.splits)
next
  case (SetScale x)
  then show ?thesis using inv ev by (auto simp add: app_inv_def app_state_simps split: option.splits)
next
  case (SetMode md)
  then show ?thesis using inv by (auto simp add: app_inv_def app_state_simps split: option.splits)
next
  case Process
  then show ?thesis using inv
    by (auto simp add: app_inv_def app_state_simps process_enabled_def task_ok_def
        split: option.split)
next
  case ProcessDone
  then show ?thesis using inv by (auto simp add: app_inv_def app_state_simps split: option.splits)
next
  case Reset
  then show ?thesis using inv by (auto simp add: app_inv_def app_state_simps split: option.splits)
qed

lemma of_nat_twice_numeral: "rat_of_nat n * 2 = numeral a \<Longrightarrow> 2 * n = numeral a"
proof -
  assume "rat_of_nat n * 2 = numeral a"
  then have "rat_of_nat (2 * n) = rat_of_nat (numeral a)" by (simp add: mult.commute)
  then show ?thesis by (simp only: of_nat_eq_iff)
qed

lemma scale_values_of_nat: "of_nat n \<in> set scale_values \<Longrightarrow> 0 < n \<and> n \<le> 4"
proof -
  assume "of_nat n \<in> set scale_values"
  then have "n \<in> {1, 2, 3, 4} \<or> rat_of_nat n * 2 = 3 \<or> rat_of_nat n * 2 = 5 \<or> rat_of_nat n * 2 = 7"
    by (simp add: scale_values_def) blast
  then show ?thesis
  proof
    assume "n \<in> {1, 2, 3, 4}"
    then show ?thesis by auto
  next
    assume "rat_of_nat n * 2 = 3 \<or> rat_of_nat n * 2 = 5 \<or> rat_of_nat n * 2 = 7"
    then have "2 * n = 3 \<or> 2 * n = 5 \<or> 2 * n = 7" using of_nat_twice_numeral by blast
    then show ?thesis by presburger
  qed
qed


lemma encodeLSB_ok:
  "has_context cv \<Longrightarrow> encodeLSB cv msg k =
     Inr (cv\<lparr>img_data := enc_ref k 0 (fullBinary msg) (img_data cv)\<rparr>,
          \<lparr>dataUrl = toDataURL (cv\<lparr>img_data := enc_ref k 0 (fullBinary msg) (img_data cv)\<rparr>),
           capacity = 3 * length (img_data cv) * k div 32, messageLength = length msg\<rparr>)"
  by (simp add: encodeLSB_Inr)

lemma process_encode_Inr:
  assumes enc: "task_mode t = Encode"
  shows "process_task env t = Inr (Encoded png) \<longleftrightarrow>
   (\<exists>cv. scaleImage (draw env) (ctx_available env) (task_image t) (task_scale t) = Inr cv
        \<and> int (length (task_message t)) \<le> task_capacity t
        \<and> png = toDataURL (cv\<lparr>img_data := enc_ref (task_bits t) 0 (fullBinary (task_message t)) (img_data cv)\<rparr>))"
proof (cases "scaleImage (draw env) (ctx_available env) (task_image t) (task_scale t)")
  case (Inl e)
  then show ?thesis using enc by (simp add: process_task_def)
next
  case (Inr cv)
  then have "has_context cv" by (auto simp add: scaleImage_Inr)
  then show ?thesis using enc Inr by (auto simp add: process_task_def encodeLSB_ok)
qed

lemma process_decode:
  "task_mode t = Decode \<Longrightarrow> ctx_available env \<Longrightarrow>
   process_task env t =
     (case decodeLSB \<lparr>img_width = img_width (task_image t), img_height = img_height (task_image t),
                       img_data = draw env (task_image t) (img_width (task_image t)) (img_height (task_image t)),
                       has_context = True\<rparr> (task_bits t) of
        Inl e \<Rightarrow> Inl e | Inr d \<Rightarrow> Inr (Decoded d))"
  by (simp add: process_task_def Let_def)


lemma scale_values_bounds: "x \<in> set scale_values \<Longrightarrow> 1 \<le> x \<and> x \<le> 4"
  by (auto simp add: scale_values_def)

text \<open>Decoding, in the application's decode mode, the image its encode mode made
  from the canvas \<open>cv\<close>: the outcome of \<open>decode_enc_ref\<close> for that canvas.\<close>

lemma decode_encoded_png:
  assumes env: "browser_ok env" and sci: "scaleImage (draw env) (ctx_available env) img sc = Inr cv"
    and k: "0 < k" "k \<le> 8" and lat: "latin1 msg" "length msg < 2 ^ 32" and msg: "msg \<noteq> []"
    and t: "task_image t = toDataURL (cv\<lparr>img_data := enc_ref k 0 (fullBinary msg) (img_data cv)\<rparr>)"
      "task_mode t = Decode" "task_bits t = k"
  shows "process_task env t =
    (if 4 * img_width cv * img_height cv * 3 * k < 128 then Inl TooSmall
     else if 4 * img_width cv * img_height cv * 3 * k < 4 * (32 + 8 * length msg)
     then Inl NoValidMessage
     else Inr (Decoded msg))"
proof -
  obtain W H D where cv: "cv = \<lparr>img_width = W, img_height = H, img_data = D, has_context = True\<rparr>"
    and ctx: "ctx_available env"
    using sci by (auto simp add: scaleImage_Inr)
  have len: "length D = 4 * W * H"
    using sci env cv by (auto simp add: scaleImage_Inr browser_ok_def draws_rgba_def)
  let ?png = "toDataURL (cv\<lparr>img_data := enc_ref k 0 (fullBinary msg) (img_data cv)\<rparr>)"
  have "wf_image ?png" using len by (simp add: cv toDataURL_def wf_image_def)
  then have drawn: "draw env ?png (img_width ?png) (img_height ?png) = img_data ?png"
    using env by (simp add: browser_ok_def)
  have pt: "process_task env t =
     (case decodeLSB (cv\<lparr>img_data := enc_ref k 0 (fullBinary msg) (img_data cv)\<rparr>) k of
        Inl e \<Rightarrow> Inl e | Inr d \<Rightarrow> Inr (Decoded d))"
    using ctx drawn t by (simp add: process_decode cv toDataURL_def)
  have "has_context cv" "length (img_data cv) = 4 * img_width cv * img_height cv"
    using len by (simp_all add: cv)
  then show ?thesis
    using decode_enc_ref [of cv k msg] k lat msg by (simp add: pt ac_simps)
qed

lemma reachable_run: "reachable env s \<Longrightarrow> ui_trace env s es \<Longrightarrow> reachable env (run env es s)"
  by (induction es arbitrary: s) (auto intro: reachable_step)

lemma reachable_pending:
  "reachable env s \<Longrightarrow> image_st s = originalImage s \<and> (isProcessing s \<longleftrightarrow> pending s \<noteq> None)
     \<and> (case pending s of None \<Rightarrow> True | Some t \<Rightarrow> task_ok t)"
proof -
  assume "reachable env s"
  then have "app_inv s"
    by induction (simp_all add: app_inv_init app_inv_step)
  then show ?thesis by (simp add: app_inv_def)
qed

text \<open>C6: every state the user can reach satisfies the invariant: one task at
  most is suspended and \<open>isProcessing\<close> shows it, the capacity shown is the one
  computed for the loaded image and the current settings, and the suspended
  task carries a message and the capacity of its own settings.\<close>

theorem app_invariant: "reachable env s \<Longrightarrow> app_inv s"
  by (induction rule: reachable.induct) (simp_all add: app_inv_init app_inv_step)

text \<open>The state after uploading a 4 by 4 image, typing "A" and clicking the button.\<close>

theorem app_invariant_witness:
  "app_inv (run example_browser [Upload black_4x4, SetMessage [65], Process] init_app)"
proof -
  have "ui_trace example_browser init_app [Upload black_4x4, SetMessage [65], Process]"
    by (simp add: init_app_def black_4x4_def upload_ok_def wf_image_def app_state_simps
        process_enabled_def)
  then show ?thesis
    using app_invariant reachable_run reachable_init by blast
qed

text \<open>C2: with an integer scale, an image the application produced decodes, in
  the application's decode mode with the same bits per channel, to the message
  that was encoded (for a Latin-1 message, and a browser that draws an image at
  its own size exactly).\<close>

theorem app_roundtrip:
  assumes reach: "reachable env s" and pend: "pending s = Some t"
    and enc: "task_mode t = Encode" and sc: "task_scale t = of_nat n"
    and lat: "latin1 (task_message t)" "length (task_message t) < 2 ^ 32"
    and env: "browser_ok env"
    and out: "process_task env t = Inr (Encoded png)"
  shows "process_task env (t\<lparr>task_image := png, task_mode := Decode\<rparr>) = Inr (Decoded (task_message t))"
proof -
  define img where "img = task_image t"
  define k where "k = task_bits t"
  define msg where "msg = task_message t"
  define W where "W = img_width img * n"
  define H where "H = img_height img * n"
  have ok: "task_ok t"
    using reachable_pending [OF reach] pend by simp
  then have k: "0 < k" "k \<le> 8" and msg: "msg \<noteq> []" and up: "upload_ok img"
    and cap: "task_capacity t = capacityBytes img (of_nat n) k"
    using enc sc by (auto simp add: task_ok_def k_def msg_def img_def)
  have n: "0 < n" "n \<le> 4"
    using ok sc by (simp_all add: task_ok_def scale_values_of_nat)
  have "W \<le> img_width img * 4" "H \<le> img_height img * 4"
    using n by (simp_all add: W_def H_def)
  then have WH: "W < 2 ^ 31" "H < 2 ^ 31"
    using up by (simp_all add: upload_ok_def)
  obtain cv where sci: "scaleImage (draw env) (ctx_available env) img (of_nat n) = Inr cv"
    and fits: "int (length msg) \<le> capacityBytes img (of_nat n) k"
    and png: "png = toDataURL (cv\<lparr>img_data := enc_ref k 0 (fullBinary msg) (img_data cv)\<rparr>)"
    using out enc sc cap by (auto simp add: process_encode_Inr img_def k_def msg_def)
  have dims: "img_width cv = W" "img_height cv = H"
    using sci WH by (simp_all add: scaleImage_Inr canvas_dim_of_nat W_def H_def flip: of_nat_mult)
  have dec: "process_task env (t\<lparr>task_image := png, task_mode := Decode\<rparr>) =
    (if 4 * W * H * 3 * k < 128 then Inl TooSmall
     else if 4 * W * H * 3 * k < 4 * (32 + 8 * length msg) then Inl NoValidMessage
     else Inr (Decoded msg))"
    using decode_encoded_png [OF env sci k, of msg] lat msg png dims by (simp add: msg_def k_def)
  define X where "X = 3 * W * H * k"
  have "capacityBytes img (of_nat n) k = max 0 (int X div 8 - 4)"
    by (simp only: capacityBytes_of_nat W_def H_def X_def)
  then have "int (length msg) \<le> max 0 (int X div 8 - 4)"
    using fits by simp
  then have fx: "32 + 8 * length msg \<le> X"
    using msg capacity_fits_iff [of "length msg" X] by simp
  have e4: "4 * W * H * 3 * k = 4 * X" by (simp add: X_def)
  have "\<not> 4 * W * H * 3 * k < 128" "\<not> 4 * W * H * 3 * k < 4 * (32 + 8 * length msg)"
    unfolding e4 using fx by arith+
  then show ?thesis by (simp add: dec msg_def)
qed


text \<open>The same: a 4 by 4 image, the message "A", one bit per channel, scale 1.\<close>

theorem app_roundtrip_witness:
  "process_task example_browser
     \<lparr>task_image = toDataURL \<lparr>img_width = 4, img_height = 4,
         img_data = enc_ref 1 0 (fullBinary [65]) (replicate 64 0), has_context = True\<rparr>,
      task_mode = Decode, task_scale = 1, task_message = [65], task_capacity = 2, task_bits = 1\<rparr>
   = Inr (Decoded [65])"
proof -
  let ?es = "[Upload black_4x4, SetMessage [65], Process]"
  let ?t = "\<lparr>task_image = black_4x4, task_mode = Encode, task_scale = 1, task_message = [65::code_unit],
             task_capacity = 2, task_bits = 1\<rparr>"
  let ?png = "toDataURL \<lparr>img_width = 4, img_height = 4,
         img_data = enc_ref 1 0 (fullBinary [65]) (replicate 64 0), has_context = True\<rparr>"
  have "ui_trace example_browser init_app ?es"
    by (simp add: init_app_def black_4x4_def upload_ok_def wf_image_def app_state_simps
        process_enabled_def)
  then have r: "reachable example_browser (run example_browser ?es init_app)"
    using reachable_run reachable_init by blast
  have p: "pending (run example_browser ?es init_app) = Some ?t"
    by code_simp
  have o: "process_task example_browser ?t = Inr (Encoded ?png)"
    by code_simp
  have b: "browser_ok example_browser"
    by (simp add: browser_ok_def draws_rgba_def example_browser_def wf_image_def)
  show ?thesis
    using app_roundtrip [OF r p _ _ _ _ b o, of 1] by (simp add: latin1_def)
qed

text \<open>C10: with an integer scale the capacity check of line 76 is exact: a
  non-empty message passes it exactly when its frame fits into the colour bytes
  of the scaled canvas, which is what \<open>decodeLSB\<close> requires.\<close>

theorem capacity_guard_exact:
  "0 < m \<Longrightarrow> int m \<le> capacityBytes img (of_nat n) k \<longleftrightarrow>
     4 * (32 + 8 * m) \<le> 3 * (4 * (img_width img * n) * (img_height img * n)) * k"
proof -
  assume "0 < m"
  have e: "3 * (4 * (img_width img * n) * (img_height img * n)) * k =
        4 * (3 * (img_width img * n) * (img_height img * n) * k)" by simp
  show ?thesis
    unfolding e using \<open>0 < m\<close> by (simp only: capacityBytes_of_nat capacity_fits_iff mult_le_cancel1) simp
qed

text \<open>On the 4 by 4 image at scale 1 with one bit per channel the capacity is
  2 bytes: two characters fit, three do not.\<close>

theorem capacity_guard_exact_witness:
  "(int 2 \<le> capacityBytes black_4x4 (of_nat 1) 1 \<longleftrightarrow> 4 * (32 + 8 * 2) \<le> 3 * (4 * (4 * 1) * (4 * 1)) * (1::nat))
   \<and> capacityBytes black_4x4 1 1 = 2"
  using capacity_guard_exact [of 2 black_4x4 1 1]
  by (simp add: capacityBytes_def black_4x4_def Let_def)

text \<open>C5: whatever the scale of the slider, an image the application produced
  decodes, in decode mode with the same bits per channel, to an outcome fixed by
  the canvas \<open>scaleImage\<close> allocated, whose sides are the products truncated to
  integers: the message when its frame fits that canvas, "No valid message"
  otherwise (or "too small"). The capacity check plays no part: it is computed
  from the untruncated products and does not ensure that the frame fits.\<close>

theorem app_encode_decode_any_scale:
  assumes reach: "reachable env s" and pend: "pending s = Some t" and enc: "task_mode t = Encode"
    and lat: "latin1 (task_message t)" "length (task_message t) < 2 ^ 32"
    and env: "browser_ok env"
    and out: "process_task env t = Inr (Encoded png)"
  shows "process_task env (t\<lparr>task_image := png, task_mode := Decode\<rparr>) =
    (let W = nat \<lfloor>of_nat (img_width (task_image t)) * task_scale t\<rfloor>;
         H = nat \<lfloor>of_nat (img_height (task_image t)) * task_scale t\<rfloor>;
         bits = 4 * W * H * 3 * task_bits t
     in if bits < 128 then Inl TooSmall
        else if bits < 4 * (32 + 8 * length (task_message t)) then Inl NoValidMessage
        else Inr (Decoded (task_message t)))"
proof -
  define img where "img = task_image t"
  define sc where "sc = task_scale t"
  have ok: "task_ok t"
    using reachable_pending [OF reach] pend by simp
  then have k: "0 < task_bits t" "task_bits t \<le> 8" and msg: "task_message t \<noteq> []"
    and up: "upload_ok img" and sc: "1 \<le> sc" "sc \<le> 4"
    using enc scale_values_bounds by (auto simp add: task_ok_def img_def sc_def)
  have "of_nat (img_width img) * sc \<le> of_nat (img_width img) * 4"
    "of_nat (img_height img) * sc \<le> of_nat (img_height img) * 4"
    using sc by (simp_all add: mult_left_mono)
  moreover have "(of_nat (4 * img_width img) :: rat) < of_nat (2 ^ 31)"
    "(of_nat (4 * img_height img) :: rat) < of_nat (2 ^ 31)"
    using up by (simp_all only: upload_ok_def of_nat_less_iff)
  then have "of_nat (img_width img) * 4 < (2 ^ 31 :: rat)" "of_nat (img_height img) * 4 < (2 ^ 31 :: rat)"
    by (simp_all add: mult.commute)
  ultimately have bw: "of_nat (img_width img) * sc < 2 ^ 31" "of_nat (img_height img) * sc < 2 ^ 31"
    by (simp_all only: order_le_less_trans)
  obtain cv where sci: "scaleImage (draw env) (ctx_available env) img sc = Inr cv"
    and png: "png = toDataURL (cv\<lparr>img_data := enc_ref (task_bits t) 0 (fullBinary (task_message t))
                                                     (img_data cv)\<rparr>)"
    using out enc by (auto simp add: process_encode_Inr img_def sc_def)
  have cvd: "img_width cv = canvas_dim 300 (of_nat (img_width img) * sc)"
    "img_height cv = canvas_dim 150 (of_nat (img_height img) * sc)"
    using sci by (auto simp add: scaleImage_Inr)
  have "0 \<le> of_nat (img_width img) * sc" "0 \<le> of_nat (img_height img) * sc"
    using sc by simp_all
  then have wh: "img_width cv = nat \<lfloor>of_nat (img_width (task_image t)) * task_scale t\<rfloor>"
    "img_height cv = nat \<lfloor>of_nat (img_height (task_image t)) * task_scale t\<rfloor>"
    using bw by (simp_all only: cvd canvas_dim_below img_def sc_def)
  have "process_task env (t\<lparr>task_image := png, task_mode := Decode\<rparr>) =
    (if 4 * img_width cv * img_height cv * 3 * task_bits t < 128 then Inl TooSmall
     else if 4 * img_width cv * img_height cv * 3 * task_bits t < 4 * (32 + 8 * length (task_message t))
     then Inl NoValidMessage
     else Inr (Decoded (task_message t)))"
    by (rule decode_encoded_png [OF env sci k lat msg]) (simp_all add: png)
  then show ?thesis
    by (simp only: wh Let_def)
qed

text \<open>The defect on a concrete run: a 3 by 3 image at scale 1.5 with one bit per
  channel shows a capacity of 3 bytes (from \<open>4.5 * 4.5\<close> pixels), so "AAA"
  passes the check; the canvas is 4 by 4, room for 2 bytes, and the stego image
  decodes to "No valid message".\<close>

theorem app_encode_decode_any_scale_witness:
  "task_capacity (the (pending (run example_browser
      [Upload black_3x3, SetScale (3 / 2), SetMessage [65, 65, 65], Process] init_app))) = 3
   \<and> process_task example_browser
     \<lparr>task_image = toDataURL \<lparr>img_width = 4, img_height = 4,
         img_data = enc_ref 1 0 (fullBinary [65, 65, 65]) (replicate 64 0), has_context = True\<rparr>,
      task_mode = Decode, task_scale = 3 / 2, task_message = [65, 65, 65], task_capacity = 3,
      task_bits = 1\<rparr>
   = Inl NoValidMessage"
proof -
  let ?es = "[Upload black_3x3, SetScale (3 / 2), SetMessage [65, 65, 65], Process]"
  let ?t = "\<lparr>task_image = black_3x3, task_mode = Encode, task_scale = 3 / 2,
             task_message = [65, 65, 65::code_unit], task_capacity = 3, task_bits = 1\<rparr>"
  let ?png = "toDataURL \<lparr>img_width = 4, img_height = 4,
         img_data = enc_ref 1 0 (fullBinary [65, 65, 65]) (replicate 64 0), has_context = True\<rparr>"
  have "ui_trace example_browser init_app ?es"
    by (simp add: init_app_def black_3x3_def upload_ok_def wf_image_def app_state_simps
        process_enabled_def scale_values_def)
  then have r: "reachable example_browser (run example_browser ?es init_app)"
    using reachable_run reachable_init by blast
  have p: "pending (run example_browser ?es init_app) = Some ?t"
    by code_simp
  have o: "process_task example_browser ?t = Inr (Encoded ?png)"
    by code_simp
  have b: "browser_ok example_browser"
    by (simp add: browser_ok_def draws_rgba_def example_browser_def wf_image_def)
  have f: "\<lfloor>of_nat 3 * (3 / 2) :: rat\<rfloor> = 4" by (simp add: floor_eq_iff)
  show ?thesis
    using app_encode_decode_any_scale [OF r p _ _ _ b o] p f
    by (simp add: latin1_def Let_def black_3x3_def)
qed

text \<open>C16: the spinner always stops: in every reachable state where
  \<open>isProcessing\<close> is set, a task is suspended, and its completion clears
  \<open>isProcessing\<close> (the \<open>finally\<close> block), whatever the task's outcome.\<close>

theorem processing_stops:
  "reachable env s \<Longrightarrow> isProcessing s \<Longrightarrow>
   pending s \<noteq> None \<and> \<not> isProcessing (app_step env ProcessDone s) \<and> pending (app_step env ProcessDone s) = None"
proof -
  assume reach: "reachable env s" and busy: "isProcessing s"
  obtain t where "pending s = Some t"
    using reachable_pending [OF reach] busy by auto
  then show ?thesis by (simp add: app_state_simps)
qed

theorem processing_stops_witness:
  "\<not> isProcessing (app_step example_browser ProcessDone
       (run example_browser [Upload black_4x4, SetMessage [65], Process] init_app))"
proof -
  let ?s = "run example_browser [Upload black_4x4, SetMessage [65], Process] init_app"
  have "ui_trace example_browser init_app [Upload black_4x4, SetMessage [65], Process]"
    by (simp add: init_app_def black_4x4_def upload_ok_def wf_image_def app_state_simps
        process_enabled_def)
  then have "reachable example_browser ?s"
    using reachable_run reachable_init by blast
  moreover have "isProcessing ?s" by code_simp
  ultimately show ?thesis using processing_stops by blast
qed

text \<open>C20: the capacity check's error path: when the message of the suspended
  encode task is longer than its capacity, completing the task reports
  \<open>MessageTooLong\<close> with that capacity, leaves the previous result as it was,
  and clears \<open>isProcessing\<close>. A missing context is reported first, as
  \<open>scaleImage\<close> runs before the check.\<close>

theorem process_done_too_long:
  assumes pend: "pending s = Some t" and enc: "task_mode t = Encode"
    and long: "task_capacity t < int (length (task_message t))"
  shows "error (app_step env ProcessDone s) =
           Some (if ctx_available env then MessageTooLong (nat (task_capacity t)) else NoContext)
         \<and> resultImage (app_step env ProcessDone s) = resultImage s
         \<and> decodedMessage (app_step env ProcessDone s) = decodedMessage s
         \<and> \<not> isProcessing (app_step env ProcessDone s)"
proof -
  have "process_task env t =
          Inl (if ctx_available env then MessageTooLong (nat (task_capacity t)) else NoContext)"
    using enc long by (simp add: process_task_def scaleImage_def Let_def)
  then show ?thesis
    using pend by (simp add: render_def mode_effect_def capacity_effect_def handleProcess_finish_def)
qed

text \<open>"AAA" on the 4 by 4 image at scale 1 (capacity 2).\<close>

theorem process_done_too_long_witness:
  "error (app_step example_browser ProcessDone
     (run example_browser [Upload black_4x4, SetMessage [65, 65, 65], Process] init_app))
   = Some (MessageTooLong 2)"
proof -
  let ?s = "run example_browser [Upload black_4x4, SetMessage [65, 65, 65], Process] init_app"
  let ?t = "\<lparr>task_image = black_4x4, task_mode = Encode, task_scale = 1,
             task_message = [65, 65, 65::code_unit], task_capacity = 2, task_bits = 1\<rparr>"
  have "pending ?s = Some ?t" by code_simp
  then show ?thesis
    using process_done_too_long [of ?s ?t example_browser] by (simp add: example_browser_def)
qed

end
