(* ===== verification/View.thy ===== *)
theory View
  imports App
begin

text \<open>
  What the component renders (the JSX of \<open>src/src/App.tsx\<close>, lines 125--380),
  as functions of the state: the left column (preview, scaling and capacity,
  bits per channel) and the right column (title, process button, message editor
  or decoded message, error, result). Styling, icons, animation and the static
  text of lines 382--414 are not modelled; what is kept is every value the user
  sees and every condition that decides whether a part is shown.
\<close>

section \<open>Definitions\<close>

text \<open>The label of the process button, lines 286--290.\<close>

datatype button_label = Spinner | GenerateStegoImage | ExtractMessage

text \<open>The main panel, lines 296--338: in encode mode the message editor with the
  counter \<open>message.length / capacity\<close> and its warning colour; in decode mode the
  decoded message when it is truthy (a non-empty string), a hint otherwise.\<close>

datatype panel =
    EditorPanel jstring nat int bool
  | DecodedPanel "jstring option"

text \<open>The counter's warning colour, line 303.\<close>

definition counter_warning :: "app_sys \<Rightarrow> bool" where
  "counter_warning s \<longleftrightarrow> int (length (message s)) > capacity_st s"

record left_view =
  lv_preview :: "image option"
  lv_settings_active :: bool
  lv_scale :: rat
  lv_capacity :: int
  lv_bits :: nat

text \<open>The left column, lines 166--260: the preview when \<open>image\<close> is set (the
  upload prompt otherwise), the scaling panel made inactive in decode mode
  (\<open>opacity-50 pointer-events-none\<close>, line 198), the slider's value, the capacity,
  and the selected bits per channel.\<close>

definition left_view :: "app_sys \<Rightarrow> left_view" where
  "left_view s =
     \<lparr>lv_preview = image_st s, lv_settings_active = (mode s \<noteq> Decode), lv_scale = scale s,
      lv_capacity = capacity_st s, lv_bits = bitsPerChannel s\<rparr>"

record right_view =
  rv_title :: mode
  rv_button_enabled :: bool
  rv_button_label :: button_label
  rv_panel :: panel
  rv_error :: "stego_error option"
  rv_result :: "image option"

text \<open>The right column, lines 262--380: the title by mode, the process button
  (enabled by \<open>process_enabled\<close>, a spinner while processing), the panel, the
  error box when \<open>error\<close> is set, and the result box with the download button
  when \<open>resultImage\<close> is set and the mode is encode (line 353).\<close>

definition right_view :: "app_sys \<Rightarrow> right_view" where
  "right_view s =
     \<lparr>rv_title = mode s,
      rv_button_enabled = process_enabled s,
      rv_button_label = (if isProcessing s then Spinner
                         else if mode s = Encode then GenerateStegoImage else ExtractMessage),
      rv_panel = (if mode s = Encode
                  then EditorPanel (message s) (length (message s)) (capacity_st s) (counter_warning s)
                  else DecodedPanel (case decodedMessage s of
                                       None \<Rightarrow> None
                                     | Some d \<Rightarrow> if d = [] then None else Some d)),
      rv_error = error s,
      rv_result = (if mode s = Encode then resultImage s else None)\<rparr>"

section \<open>Lemmas\<close>

lemma capacityBytes_nonneg: "0 \<le> capacityBytes img sc k"
  by (simp add: capacityBytes_def Let_def)

text \<open>C11: in a reachable state in encode mode with the button enabled and a
  browser that gives a context, the counter is shown in red exactly when clicking
  the button ends with the error "Message too long" for the capacity on screen;
  otherwise the click produces a stego image and no error.\<close>

theorem counter_warns_iff_rejected:
  assumes reach: "reachable env s" and enc: "mode s = Encode" and en: "process_enabled s"
    and ctx: "ctx_available env"
  shows "error (run env [Process, ProcessDone] s) =
     (if counter_warning s then Some (MessageTooLong (nat (capacity_st s))) else None)
   \<and> (if counter_warning s then resultImage (run env [Process, ProcessDone] s) = resultImage s
      else resultImage (run env [Process, ProcessDone] s) \<noteq> None)"
proof -
  obtain img where img: "originalImage s = Some img"
    using reachable_pending [OF reach] en by (auto simp add: process_enabled_def)
  define t where "t = \<lparr>task_image = img, task_mode = Encode, task_scale = scale s,
     task_message = message s, task_capacity = capacity_st s, task_bits = bitsPerChannel s\<rparr>"
  have s1: "app_step env Process s =
     render False s (s\<lparr>isProcessing := True, error := None, pending := Some t\<rparr>)"
    using en img enc by (simp add: handleProcess_start_def t_def)
  obtain cv where sc: "scaleImage (draw env) (ctx_available env) img (scale s) = Inr cv"
    and hc: "has_context cv"
    using ctx by (simp add: scaleImage_def Let_def)
  have pt: "process_task env t =
     (if counter_warning s then Inl (MessageTooLong (nat (capacity_st s)))
      else Inr (Encoded (toDataURL (cv\<lparr>img_data := enc_ref (bitsPerChannel s) 0
                                      (fullBinary (message s)) (img_data cv)\<rparr>))))"
    using sc hc by (simp add: process_task_def t_def counter_warning_def encodeLSB_ok)
  show ?thesis
    using s1 pt ctx
    by (auto simp add: render_def mode_effect_def capacity_effect_def handleProcess_finish_def)
qed

text \<open>Typing "AAA" for the 4 by 4 image (capacity 2) turns the counter red, and
  the click reports the capacity of 2 bytes.\<close>

theorem counter_warns_iff_rejected_witness:
  "counter_warning (run example_browser [Upload black_4x4, SetMessage [65, 65, 65]] init_app)
   \<and> error (run example_browser [Process, ProcessDone]
        (run example_browser [Upload black_4x4, SetMessage [65, 65, 65]] init_app))
      = Some (MessageTooLong 2)"
proof -
  let ?s = "run example_browser [Upload black_4x4, SetMessage [65, 65, 65]] init_app"
  have "ui_trace example_browser init_app [Upload black_4x4, SetMessage [65, 65, 65]]"
    by (simp add: init_app_def black_4x4_def upload_ok_def wf_image_def app_state_simps)
  then have r: "reachable example_browser ?s"
    using reachable_run reachable_init by blast
  have facts: "mode ?s = Encode" "process_enabled ?s" "counter_warning ?s" "capacity_st ?s = 2"
    by code_simp+
  have "ctx_available example_browser" by (simp add: example_browser_def)
  then show ?thesis
    using counter_warns_iff_rejected [OF r facts(1,2)] facts(3,4) by simp
qed

text \<open>C15: \<open>Reset\<close> does not cancel a suspended \<open>handleProcess\<close>. From any
  state in encode mode where a task is suspended whose encoding succeeds, a reset
  followed by the task's completion leaves no image loaded, so the screen shows
  the upload prompt, next to the "Stego Image Ready" box holding the stego image
  of the image that was reset, with its download button.\<close>

theorem reset_does_not_cancel:
  assumes pend: "pending s = Some t" and md: "mode s = Encode"
    and out: "process_task env t = Inr (Encoded png)"
  shows "originalImage (run env [Reset, ProcessDone] s) = None
    \<and> lv_preview (left_view (run env [Reset, ProcessDone] s)) = None
    \<and> rv_result (right_view (run env [Reset, ProcessDone] s)) = Some png
    \<and> \<not> isProcessing (run env [Reset, ProcessDone] s)"
proof -
  let ?r = "app_step env Reset s"
  have r: "originalImage ?r = None" "image_st ?r = None" "mode ?r = Encode" "pending ?r = Some t"
    using pend md by (simp_all add: app_state_simps)
  have "resultImage (app_step env ProcessDone ?r) = Some png"
    using r out by (simp add: render_def mode_effect_def capacity_effect_def handleProcess_finish_def)
  then show ?thesis
    using r by (simp add: app_state_simps left_view_def right_view_def)
qed

text \<open>Upload, type "A", click, then reset before the task completes.\<close>

theorem reset_does_not_cancel_witness:
  "let s = run example_browser [Upload black_4x4, SetMessage [65], Process, Reset, ProcessDone] init_app
   in lv_preview (left_view s) = None \<and>
      rv_result (right_view s) = Some (toDataURL \<lparr>img_width = 4, img_height = 4,
         img_data = enc_ref 1 0 (fullBinary [65]) (replicate 64 0), has_context = True\<rparr>)"
proof -
  let ?s = "run example_browser [Upload black_4x4, SetMessage [65], Process] init_app"
  let ?t = "\<lparr>task_image = black_4x4, task_mode = Encode, task_scale = 1, task_message = [65::code_unit],
             task_capacity = 2, task_bits = 1\<rparr>"
  have p: "pending ?s = Some ?t" and m: "mode ?s = Encode" by code_simp+
  have o: "process_task example_browser ?t = Inr (Encoded (toDataURL \<lparr>img_width = 4, img_height = 4,
         img_data = enc_ref 1 0 (fullBinary [65]) (replicate 64 0), has_context = True\<rparr>))"
    by code_simp
  have "run example_browser [Upload black_4x4, SetMessage [65], Process, Reset, ProcessDone] init_app
      = run example_browser [Reset, ProcessDone] ?s" by simp
  then show ?thesis
    using reset_does_not_cancel [OF p m o] by (simp add: Let_def)
qed

end
