(* ===== verification/Loops.thy ===== *)
theory Loops
  imports Decoder "HOL-Library.While_Combinator"
begin

text \<open>
  The two \<open>while\<close> loops of \<open>decodeLSB\<close> (src/src/utils/steganography.ts,
  lines 83--89 and 104--110) written as the code writes them: a \<open>while_option\<close>
  over the local variables \<open>(i, binaryString)\<close>, \<open>None\<close> standing for a loop
  that does not stop. The theory shows that the loops stop from every start, and
  bounds the index they stop at.
\<close>

section \<open>The loops as \<open>while_option\<close>\<close>

text \<open>The decoder's \<open>while\<close> loops: the state is \<open>(i, binaryString)\<close>, the
  bound \<open>target\<close> is 32 in the first loop and \<open>requiredBits\<close> in the second.\<close>

definition extract_cond :: "byte list \<Rightarrow> nat \<Rightarrow> nat \<times> bitstr \<Rightarrow> bool" where
  "extract_cond data target = (\<lambda>(i, binaryString). length binaryString < target \<and> i < length data)"

definition extract_body :: "nat \<Rightarrow> byte list \<Rightarrow> nat \<times> bitstr \<Rightarrow> nat \<times> bitstr" where
  "extract_body bitsPerChannel data = (\<lambda>(i, binaryString).
     (i + 1, if (i + 1) mod 4 \<noteq> 0 then binaryString @ chunk_bits bitsPerChannel (data ! i)
             else binaryString))"

definition extract_while ::
  "nat \<Rightarrow> byte list \<Rightarrow> nat \<Rightarrow> nat \<times> bitstr \<Rightarrow> (nat \<times> bitstr) option" where
  "extract_while bitsPerChannel data target =
     while_option (extract_cond data target) (extract_body bitsPerChannel data)"

section \<open>The loops stop\<close>

text \<open>C18: the decoder's \<open>while\<close> loops stop, from any start, and run at
  most once per remaining byte: the index they stop at lies between the start and
  the end of the buffer (or the start, when it is already past the end).\<close>

theorem extract_while_terminates:
  "\<exists>i' s'. extract_while k data t (i, s) = Some (i', s') \<and> i \<le> i' \<and> i' \<le> max i (length data)"
proof -
  let ?P = "\<lambda>(j, s'). i \<le> j \<and> j \<le> max i (length data)"
  have step: "\<And>st. ?P st \<Longrightarrow> extract_cond data t st \<Longrightarrow>
      ?P (extract_body k data st) \<and> (\<lambda>(j, s'). length data - j) (extract_body k data st)
        < (\<lambda>(j, s'). length data - j) st"
    by (auto simp add: extract_cond_def extract_body_def)
  obtain st where run: "extract_while k data t (i, s) = Some st"
    using measure_while_option_Some [where P = ?P and b = "extract_cond data t"
        and c = "extract_body k data" and f = "\<lambda>(j, s'). length data - j", OF step, of "(i, s)"]
    by (auto simp add: extract_while_def)
  have "?P st"
    using while_option_rule [where P = ?P, OF _ run [unfolded extract_while_def]] step by auto
  with run show ?thesis by (cases st) auto
qed

end
