(* ===== verification/Spec2Isabelle.thy ===== *)
theory Spec2Isabelle
  imports Codec App View Loops
begin

text \<open>
  \<^bold>\<open>StegaScale: a verification development of its LSB steganography codec
  and of the application that drives it.\<close>

  The repository (\<open>src/src/utils/steganography.ts\<close>, \<open>src/src/App.tsx\<close>) hides a
  text message in the least significant bits of the RGBA bytes of a canvas and
  reads it back. Its parts:
  \<^item> the \<^emph>\<open>frame\<close>: the message as binary digits (\<open>stringToBin\<close>, lines
    120--122), preceded by a 32-digit length header (lines 30--32), and the way
    back (\<open>binToString\<close>, lines 124--127);
  \<^item> the \<^emph>\<open>encoder\<close> \<open>encodeLSB\<close> (lines 17--55): an in-place loop that writes
    \<open>bitsPerChannel\<close> digits into the low bits of each non-alpha byte;
  \<^item> the \<^emph>\<open>decoder\<close> \<open>decodeLSB\<close> (lines 60--118): the same walk reading the
    digits back in two phases, with a size check, a header check and an
    end-of-data check;
  \<^item> the \<^emph>\<open>resampler\<close> \<open>scaleImage\<close> (lines 132--148), which enlarges the cover
    image through the browser's 2D context before encoding;
  \<^item> the \<^emph>\<open>application\<close> \<open>App\<close> (\<open>App.tsx\<close>): React state, the capacity
    effect (lines 38--46), the upload, process, download and reset handlers, and
    the asynchronous \<open>handleProcess\<close> that runs the encoder or the decoder.

  \<^bold>\<open>Theories.\<close>
  \<^item> \<open>Prelude\<close>: the model's types (\<open>byte = 8 word\<close> for a
    \<open>Uint8ClampedArray\<close> element, \<open>code_unit = 16 word\<close> for a UTF-16 unit,
    \<open>bitstr = bool list\<close> for a string of the digits 0 and 1), the records
    \<open>image\<close> and \<open>canvas\<close> (an image whose 2D context may be missing), the error
    datatype \<open>stego_error\<close> (one constructor per message the code throws), the
    JavaScript primitives the code applies (\<open>toString(2)\<close> as \<open>to_bin\<close>,
    \<open>padStart\<close>, \<open>padEnd\<close>, \<open>substring\<close>, \<open>parseInt(_, 2)\<close> as \<open>parse_bin\<close>
    with \<open>None\<close> for \<open>NaN\<close>, \<open>String.fromCharCode\<close>, the clamped byte store,
    \<open>ToInt32\<close>), example canvases, and their lemmas.
  \<^item> \<open>Frame\<close>: \<open>stringToBin\<close>, \<open>split8\<close> (the regular expression
    \<open>/.{1,8}/g\<close>), \<open>binToString\<close>, \<open>lengthHeader\<close>, \<open>fullBinary\<close>.
  \<^item> \<open>Encoder\<close>: \<open>enc_mask\<close> (\<open>255 << bitsPerChannel\<close> as an int32),
    \<open>hide_byte\<close> (line 44 with int32 operations and the clamped store),
    \<open>encode_loop\<close> (the loop of lines 34--46 with its index and \<open>bitIndex\<close>,
    updating the list in place), \<open>encodeLSB\<close>; the abstract specification
    \<open>encode_spec\<close> (byte \<open>j\<close> takes the digits from \<open>k * (j - j div 4)\<close>) and
    the structural reference \<open>enc_ref\<close>.
  \<^item> \<open>Decoder\<close>: \<open>dec_mask\<close>, \<open>chunk_bits\<close> (lines 85 and 106),
    \<open>total_available_bits\<close> and \<open>max_possible_bytes\<close> in exact rational
    arithmetic as the code computes them, \<open>extract_loop\<close> (both extraction
    loops, the index carried from the first to the second), \<open>decodeLSB\<close>; the
    reference \<open>stream\<close> (all digits the walk can read) and the abstract
    specification \<open>decode_spec\<close>.
  \<^item> \<open>Codec\<close>: how a byte written by the encoder reads back, the stream of an
    encoded buffer, and what the decoder returns on the encoder's output
    (\<open>decode_enc_ref\<close>).
  \<^item> \<open>Resampler\<close>: \<open>to_uint32\<close> (ToUint32 of a number),
    \<open>canvas_dim\<close> (the assignment to \<open>canvas.width\<close> or \<open>canvas.height\<close>:
    the HTML reflection of an unsigned long, which falls back to the default 300
    or 150 for a value above \<open>2^31 - 1\<close>), \<open>scaleImage\<close> (lines 132--148)
    with the drawing as a parameter and its contract \<open>draws_rgba\<close>.
  \<^item> \<open>App\<close>: the component as a state machine. The record \<open>app_state\<close> holds
    the \<open>useState\<close> hooks (lines 24--34); \<open>app_sys\<close> adds \<open>pending\<close>, the
    \<open>handleProcess\<close> closure suspended at its \<open>await\<close>, as a \<open>task\<close> of the
    render values it captured. \<open>app_step\<close> applies one \<open>app_event\<close>: the
    handler (\<open>handleImageUpload\<close>, \<open>resetAll\<close>, the setters bound in the JSX,
    \<open>handleProcess_start\<close> for lines 67--70 behind the button guard
    \<open>process_enabled\<close> of line 283, \<open>handleProcess_finish\<close> for lines 72--100
    with \<open>process_task\<close> the \<open>try\<close> block), then \<open>render\<close>: the capacity
    effect (\<open>capacity_effect\<close>, \<open>capacityBytes\<close>, lines 38--46) and the mode
    effect (\<open>mode_effect\<close>, lines 120--124) when their dependencies changed.
    \<open>reachable\<close> is the inductive set of states reached from \<open>init_app\<close> by
    events the controls can produce (\<open>ui_event\<close>: the slider's values, in
    either mode, since \<open>pointer-events-none\<close> does not stop the keyboard; the
    bit buttons; an uploaded RGBA image); \<open>run\<close> replays a list of events.
    Splitting \<open>handleProcess\<close> at its \<open>await\<close> lets any event come between the
    click and the completion, as in the browser.
  \<^item> \<open>Loops\<close>: the decoder's \<open>while\<close> loops written as the code writes
    them, as \<open>while_option\<close> over their local variables
    (\<open>extract_while\<close>), where \<open>None\<close> would be a loop that never stops.
  \<^item> \<open>View\<close>: what the component renders (lines 125--380) as functions of the
    state: \<open>left_view\<close> (preview, scale, capacity, bits) and \<open>right_view\<close>
    (title, process button and its label, message editor with the counter and
    its warning \<open>counter_warning\<close>, or the decoded message, the error box, the
    result box with the download button).
  \<^item> this theory: the properties that span the encoder and the decoder.

  \<^bold>\<open>What is proved.\<close>
  \<^item> Round trip (\<open>decode_after_encode\<close>): for \<open>1 \<le> bitsPerChannel \<le> 8\<close> and a
    Latin-1 message shorter than \<open>2^32\<close> units, decoding the encoded canvas gives
    \<open>TooSmall\<close> when the buffer holds fewer than 32 digits, \<open>NoValidMessage\<close> when
    the message is empty or the frame does not fit, and the message otherwise;
    the header is written correctly even when the message is cut off
    (\<open>header_written\<close>).
  \<^item> Encoder: equivalence of the in-place loop with \<open>enc_ref\<close>
    (\<open>encode_loop_enc_ref\<close>, by computation induction), refinement of
    \<open>encodeLSB\<close> to \<open>encode_spec\<close>, alpha bytes and the upper \<open>8 - k\<close> bits never
    change, bytes past the frame are untouched, the int32 expression of line 44
    stores \<open>(b AND NOT mask k) OR v\<close> (a bound on the \<open>32 word\<close> value before
    clamping).
  \<^item> Decoder: the invariant of the extraction loop (what it collected is the
    stream of the bytes before its index), refinement of \<open>decodeLSB\<close> to
    \<open>decode_spec\<close> for \<open>1 \<le> k \<le> 31\<close> on every branch, the exact integer form of
    the rational checks, the size check is exact, and the end-of-data check is
    unreachable.
  \<^item> Frame: Latin-1 text round-trips through \<open>stringToBin\<close>/\<open>binToString\<close>, and
    only Latin-1 text does.
  \<^item> Decoder output: whatever the canvas and the bits per channel, a message
    \<open>decodeLSB\<close> returns is Latin-1 (\<open>decodeLSB_latin1\<close>).
  \<^item> Loops: the decoder's literal loops stop from every start, within one
    iteration per remaining byte (\<open>extract_while_terminates\<close>, with
    \<open>measure_while_option_Some\<close> and \<open>while_option_rule\<close>).
  \<^item> View: the counter is red exactly when the click ends in "Message too long"
    (\<open>counter_warns_iff_rejected\<close>); and \<open>resetAll\<close> does not cancel a
    suspended \<open>handleProcess\<close>: from any state with an encoding task pending,
    a reset followed by the task's completion shows the upload prompt next to
    the task's stego image (\<open>reset_does_not_cancel\<close>).
  \<^item> Resampler: a side below \<open>2^31\<close> is the product truncated to an
    integer (\<open>canvas_dim_below\<close>); the canvas has four bytes per pixel and
    only a missing context fails (\<open>scaleImage_Inr\<close>).
  \<^item> App: the invariant of all reachable states (\<open>app_invariant\<close>, by rule
    induction); end to end, for an integer scale, an image the application
    encodes decodes in the application to the message (\<open>app_roundtrip\<close>); the
    capacity check is exact for integer scales (\<open>capacity_guard_exact\<close>) and
    for every scale of the slider, the image an encoding task of a reachable
    state produces decodes to an outcome fixed by the canvas \<open>scaleImage\<close>
    allocated, whose sides are the truncated products
    (\<open>app_encode_decode_any_scale\<close>). Since the capacity is computed from the
    untruncated products, a fractional scale lets through a message that does
    not decode; the witness shows it on a 3 by 3 image at scale 1.5.

  \<^bold>\<open>Bounds and termination.\<close> Both loops are \<^theory_text>\<open>function\<close>s whose
  termination measure is \<open>length data - i\<close>: they run at most once per byte. No fuel
  is needed. Results hold for \<open>bitsPerChannel\<close> up to 8 (encoder: beyond 8 the
  stored value no longer fits a byte) or 31 (decoder: the int32 mask), which
  covers the application's 1 to 4. The length header is exact for messages
  shorter than \<open>2^32\<close> units; longer ones would overflow the 32 digits, a case
  the model keeps (the digits are written as \<open>toString(2)\<close> produces them).

  The examples are evaluated by \<open>code_simp\<close>; \<open>Prelude\<close> imports
  \<open>Code_Target_Nat\<close> so that natural numbers evaluate in binary (a garbage
  header of the order of \<open>2^30\<close> is then as cheap to evaluate as a small one).
  The application's traces are finite lists of events; the invariant covers
  every reachable state, whatever the interleaving of \<open>ProcessDone\<close> with the
  other events. Uploaded images have sides with \<open>4 * side < 2^31\<close>
  (\<open>upload_ok\<close>), far above the browsers' canvas limits, so that at every
  scale of the slider (at most 4) a canvas side stays below \<open>2^31\<close> and
  \<open>canvas_dim\<close> never falls back to its default.

  \<^bold>\<open>Not modelled.\<close> The DOM and the browser: file reading, image decoding and
  PNG serialisation are taken as exact (a canvas is its byte buffer; the data URL
  of a canvas is its image), the 2D context's availability is a boolean, and the
  interpolation of \<open>drawImage\<close> is an unspecified function (record \<open>browser\<close>;
  the end-to-end result assumes \<open>browser_ok\<close>: four bytes per pixel, and an
  image drawn at its own size gives back its pixels; since a canvas stores
  premultiplied alpha, which rounds the colour bytes of non-opaque pixels, this
  holds for opaque images and is a hypothesis, not a fact of every browser). Styling, icons,
  animation, the static methodology text and footer (lines 382--414), the
  download link (\<open>downloadResult\<close> changes no state) and the file input's reset
  are presentation only; the image shown as preview is identified with the
  loaded image. Floating-point rounding is not
  modelled: the quantities the code computes in doubles are small integers or
  halves, exact in a double, and are modelled as rationals.
\<close>

section \<open>Encoding then decoding\<close>

text \<open>C1: decoding what \<open>encodeLSB\<close> produced, with the same \<open>bitsPerChannel\<close> from
  1 to 8 and a Latin-1 message shorter than \<open>2^32\<close> units, gives back the message
  exactly when the frame fits into the colour bytes
  (\<open>4 * (32 + 8 * length) \<le> 3 * data.length * bitsPerChannel\<close>) and the message is
  not empty; a message that does not fit is detected by the header check
  (\<open>NoValidMessage\<close>), and a buffer with fewer than 32 digits is reported too small.\<close>

theorem decode_after_encode:
  assumes enc: "encodeLSB cv msg k = Inr (cv', r)"
    and k: "0 < k" "k \<le> 8" and lat: "latin1 msg" "length msg < 2 ^ 32"
  shows "decodeLSB cv' k =
    (if length (img_data cv) * 3 * k < 128 then Inl TooSmall
     else if msg = [] \<or> length (img_data cv) * 3 * k < 4 * (32 + 8 * length msg)
     then Inl NoValidMessage
     else Inr msg)"
proof -
  from enc have "has_context cv" and "cv' = cv\<lparr>img_data := enc_ref k 0 (fullBinary msg) (img_data cv)\<rparr>"
    by (simp_all add: encodeLSB_Inr)
  with k lat show ?thesis by (simp add: decode_enc_ref)
qed

text \<open>Scenario 1 of the specification: the blank 4 by 4 canvas, one bit per channel,
  the message "A" (40 digits in 48 colour bytes) comes back.\<close>

theorem decode_after_encode_witness:
  "decodeLSB (blank_4x4\<lparr>img_data := encode_spec 1 (fullBinary [65]) (img_data blank_4x4)\<rparr>) 1 = Inr [65]"
proof -
  let ?cv' = "blank_4x4\<lparr>img_data := encode_spec 1 (fullBinary [65]) (img_data blank_4x4)\<rparr>"
  let ?r = "\<lparr>dataUrl = toDataURL ?cv', capacity = 3 * length (img_data blank_4x4) * 1 div 32,
            messageLength = length [65::code_unit]\<rparr>"
  have "encodeLSB blank_4x4 [65] 1 = Inr (?cv', ?r)"
    by (simp add: encodeLSB_Inr enc_ref_encode_spec blank_4x4_def)
  then show ?thesis
    using decode_after_encode [of blank_4x4 "[65]" 1 ?cv' ?r]
    by (simp add: latin1_def blank_4x4_def)
qed

text \<open>C9: whenever the buffer holds at least 32 digits, the first 32 digits the
  decoder reads from an encoded buffer are the header, whose value is the message
  length, also when the rest of the frame did not fit and was cut off.\<close>

theorem header_written:
  assumes enc: "encodeLSB cv msg k = Inr (cv', r)"
    and k: "0 < k" "k \<le> 8" and len: "length msg < 2 ^ 32"
    and big: "128 \<le> length (img_data cv) * 3 * k"
  shows "parse_bin (take 32 (stream k 0 (img_data cv'))) = Some (length msg)"
proof -
  have data': "img_data cv' = enc_ref k 0 (fullBinary msg) (img_data cv)"
    using enc by (simp add: encodeLSB_Inr)
  have lh: "length (lengthHeader msg) = 32"
    using len by (rule length_lengthHeader)
  have "length (img_data cv) * 3 * k \<le> 4 * length (stream k 0 (img_data cv))"
    using k by (intro total_bits_le_stream) simp_all
  then have "take 32 (stream k 0 (img_data cv')) = take 32 (fullBinary msg)"
    unfolding data' using k big lh by (intro stream_enc_ref) (simp_all add: fullBinary_def)
  also have "\<dots> = lengthHeader msg"
    using lh by (simp add: fullBinary_def)
  finally show ?thesis by (simp add: parse_bin_lengthHeader)
qed

text \<open>Scenario 2 of the specification: ten bytes do not fit into the blank 4 by 4
  canvas at one bit per channel, yet the header that was written reads 10.\<close>

theorem header_written_witness:
  "parse_bin (take 32 (stream 1 0
     (encode_spec 1 (fullBinary (replicate 10 65)) (img_data blank_4x4)))) = Some 10"
proof -
  let ?m = "replicate 10 (65 :: code_unit)"
  let ?cv' = "blank_4x4\<lparr>img_data := encode_spec 1 (fullBinary ?m) (img_data blank_4x4)\<rparr>"
  let ?r = "\<lparr>dataUrl = toDataURL ?cv', capacity = 3 * length (img_data blank_4x4) * 1 div 32,
            messageLength = length ?m\<rparr>"
  have "encodeLSB blank_4x4 ?m 1 = Inr (?cv', ?r)"
    by (simp add: encodeLSB_Inr enc_ref_encode_spec blank_4x4_def)
  then show ?thesis
    using header_written [of blank_4x4 ?m 1 ?cv' ?r] by (simp add: blank_4x4_def)
qed

text \<open>C14: the capacity \<open>encodeLSB\<close> reports (\<open>Math.floor(3 * data.length / 4
  * bitsPerChannel / 8)\<close>, line 52) leaves out the four bytes of the header: a
  message exactly that long is encoded without error but never decodes, the
  buffer being reported too small or the header rejected.\<close>

theorem reported_capacity_never_decodes:
  assumes enc: "encodeLSB cv msg k = Inr (cv', r)" and len: "length msg = capacity r"
    and k: "0 < k" "k \<le> 8" and lat: "latin1 msg" "length msg < 2 ^ 32"
  shows "decodeLSB cv' k =
    (if length (img_data cv) * 3 * k < 128 then Inl TooSmall else Inl NoValidMessage)"
proof -
  from enc have ctx: "has_context cv"
    and cv': "cv' = cv\<lparr>img_data := enc_ref k 0 (fullBinary msg) (img_data cv)\<rparr>"
    and cap: "capacity r = 3 * length (img_data cv) * k div 32"
    by (simp_all add: encodeLSB_Inr)
  define X where "X = length (img_data cv) * 3 * k"
  have "length msg = X div 32" using len cap by (simp add: X_def ac_simps)
  moreover have "X < 4 * (32 + 8 * (X div 32))"
  proof -
    define q where "q = X div 32"
    define r where "r = X mod 32"
    have "q * 32 + r = X" "r < 32" by (simp_all add: q_def r_def)
    then have "X < 4 * (32 + 8 * q)" by arith
    then show ?thesis by (simp add: q_def)
  qed
  ultimately have "length (img_data cv) * 3 * k < 4 * (32 + 8 * length msg)"
    by (simp add: X_def)
  then show ?thesis
    using decode_enc_ref [OF ctx k lat] by (simp add: cv')
qed

text \<open>The blank 4 by 4 canvas with one bit per channel: \<open>encodeLSB\<close> reports 6
  bytes; six characters are encoded and the decoder rejects the header.\<close>

theorem reported_capacity_never_decodes_witness:
  "decodeLSB (blank_4x4\<lparr>img_data := encode_spec 1 (fullBinary (replicate 6 65)) (img_data blank_4x4)\<rparr>) 1
     = Inl NoValidMessage"
proof -
  let ?m = "replicate 6 (65::code_unit)"
  let ?cv' = "blank_4x4\<lparr>img_data := encode_spec 1 (fullBinary ?m) (img_data blank_4x4)\<rparr>"
  let ?r = "\<lparr>dataUrl = toDataURL ?cv', capacity = 3 * length (img_data blank_4x4) * 1 div 32,
            messageLength = length ?m\<rparr>"
  have "encodeLSB blank_4x4 ?m 1 = Inr (?cv', ?r)"
    by (simp add: encodeLSB_Inr enc_ref_encode_spec blank_4x4_def)
  then show ?thesis
    using reported_capacity_never_decodes [of blank_4x4 ?m 1 ?cv' ?r]
    by (simp add: latin1_def list_all_iff blank_4x4_def)
qed

end
